theory Spec2Isabelle
  imports Main "HOL-Library.Word"
begin

section \<open>Text helpers\<close>

text \<open>
  Go strings are byte sequences; they are modelled as \<open>string\<close> (a list of 8-bit
  characters), and \<open>len\<close> and slicing count bytes, as in Go.
\<close>

definition digit_char :: "nat \<Rightarrow> char" where
  "digit_char d = ''0123456789'' ! d"

text \<open>\<open>fmt.Sprintf("%d", n)\<close> for a non-negative integer, and for any integer.\<close>

fun show_nat :: "nat \<Rightarrow> string" where
  "show_nat n = (if n < 10 then [digit_char n] else show_nat (n div 10) @ [digit_char (n mod 10)])"

declare show_nat.simps [simp del]

definition show_int :: "int \<Rightarrow> string" where
  "show_int i = (if i < 0 then ''-'' @ show_nat (nat (- i)) else show_nat (nat i))"

text \<open>
  Splitting a text at every occurrence of a one-byte separator, all pieces kept, as
  \<open>strings.Split(s, ",")\<close> and \<open>regexp.MustCompile(`\?`).Split(s, -1)\<close> do: a text
  without the separator is returned as the only piece, the empty text as \<open>[""]\<close>.
  \<open>cur\<close> is the piece being read.
\<close>

fun split_on :: "char \<Rightarrow> string \<Rightarrow> string \<Rightarrow> string list" where
  "split_on sep cur [] = [cur]"
| "split_on sep cur (c # cs) =
     (if c = sep then cur # split_on sep [] cs else split_on sep (cur @ [c]) cs)"

section \<open>Placeholder translation (dbi.go)\<close>

definition placeholderRe_Split :: "string \<Rightarrow> string list" where
  "placeholderRe_Split sql = split_on (CHR ''?'') [] sql"

text \<open>
  The loop \<open>for i, sqlpart := range elems\<close> of \<open>postgresPlaceholders\<close>, with its
  variables \<open>i\<close>, \<open>argno\<close> and \<open>ret\<close>. \<open>argno\<close> is a Go \<open>int\<close>; it counts the
  markers of one text and cannot reach \<open>2^63\<close>, so it is a \<open>nat\<close> here.
\<close>

fun placeholders_loop :: "nat \<Rightarrow> nat \<Rightarrow> string \<Rightarrow> string list \<Rightarrow> string" where
  "placeholders_loop i argno ret [] = ret"
| "placeholders_loop i argno ret (sqlpart # elems) =
     (if i \<noteq> 0
      then placeholders_loop (i + 1) (argno + 1) (ret @ ''$'' @ show_nat argno @ sqlpart) elems
      else placeholders_loop (i + 1) argno (ret @ sqlpart) elems)"

definition postgresPlaceholders :: "string \<Rightarrow> string" where
  "postgresPlaceholders sql =
     (let elems = placeholderRe_Split sql
      in if length elems > 1 then placeholders_loop 0 1 [] elems else sql)"

text \<open>
  The translation as the specification words it: reading left to right, the \<open>i\<close>-th
  marker becomes \<open>$i\<close> and every other byte is copied.
\<close>

fun ordinal_markers :: "nat \<Rightarrow> string \<Rightarrow> string" where
  "ordinal_markers i [] = []"
| "ordinal_markers i (c # cs) =
     (if c = CHR ''?'' then ''$'' @ show_nat i @ ordinal_markers (i + 1) cs
      else c # ordinal_markers i cs)"

section \<open>Values and their textual rendering\<close>

text \<open>A Go \<open>error\<close> is represented by its message (\<open>err.Error()\<close>).\<close>

type_synonym error = string

text \<open>
  A finite \<open>float32\<close>/\<open>float64\<close> is its sign bit, an integer mantissa \<open>m\<close> and a binary
  exponent \<open>e\<close>, standing for the exact value \<open>m * 2^e\<close>.
\<close>

datatype gofloat = Finite bool nat int | Infinite bool | NaN

text \<open>
  A \<open>time.Time\<close> as its calendar reading in its own location (what \<open>Date\<close>,
  \<open>Clock\<close>, \<open>Nanosecond\<close> and \<open>Zone\<close> return); \<open>zone_offset\<close> is in seconds east
  of UTC.
\<close>

record gotime =
  year :: int
  month :: nat
  day :: nat
  hour :: nat
  minute :: nat
  second :: nat
  nanosecond :: nat
  zone_offset :: int

text \<open>
  The dynamic values (\<open>interface{}\<close>) that travel as statement arguments and as column
  values: \<open>nil\<close>, Go's scalar types, \<open>[]byte\<close> and \<open>time.Time\<close>. \<open>int\<close> and \<open>uint\<close>
  are 64 bits wide.
\<close>

datatype val =
    VNil
  | VString string
  | VBytes string
  | VBool bool
  | VInt64 "64 word"
  | VInt32 "32 word"
  | VInt16 "16 word"
  | VInt8 "8 word"
  | VInt "64 word"
  | VUint8 "8 word"
  | VUint16 "16 word"
  | VUint32 "32 word"
  | VUint64 "64 word"
  | VUint "64 word"
  | VFloat32 gofloat
  | VFloat64 gofloat
  | VTime gotime

text \<open>\<open>appendInt(b, x, width)\<close> of package time: zero-padded, the sign in front.\<close>

definition pad_nat :: "nat \<Rightarrow> nat \<Rightarrow> string" where
  "pad_nat width n = replicate (width - length (show_nat n)) (CHR ''0'') @ show_nat n"

definition appendInt :: "int \<Rightarrow> nat \<Rightarrow> string" where
  "appendInt x width = (if x < 0 then ''-'' @ pad_nat width (nat (- x)) else pad_nat width (nat x))"

text \<open>
  \<open>fmt.Sprintf("%c", v)\<close> for a \<open>uint8\<close>: the UTF-8 encoding of the code point \<open>v\<close>,
  one byte below 128 and two bytes from 128 on.
\<close>

definition fmt_c :: "8 word \<Rightarrow> string" where
  "fmt_c v =
     (if unat v < 128 then [char_of (unat v)]
      else [char_of (192 + unat v div 64), char_of (128 + unat v mod 64)])"

text \<open>
  \<open>fmt.Sprintf("%f", v)\<close>: six digits after the point, the exact value rounded to the
  nearest, a tie to the even digit (strconv's \<open>'f'\<close> format with precision 6); the sign
  bit is printed also in front of a zero; \<open>+Inf\<close>, \<open>-Inf\<close> and \<open>NaN\<close> by name.
  \<open>scaled_round m e\<close> is \<open>m * 2^e * 10^6\<close> so rounded.
\<close>

definition scaled_round :: "nat \<Rightarrow> int \<Rightarrow> nat" where
  "scaled_round m e =
     (if 0 \<le> e then m * 2 ^ nat e * 1000000
      else (let num = m * 1000000; den = 2 ^ nat (- e); q = num div den; r = num mod den
            in if den < 2 * r \<or> (2 * r = den \<and> odd q) then q + 1 else q))"

fun fmt_f :: "gofloat \<Rightarrow> string" where
  "fmt_f NaN = ''NaN''"
| "fmt_f (Infinite neg) = (if neg then ''-Inf'' else ''+Inf'')"
| "fmt_f (Finite neg m e) =
     (if neg then ''-'' else []) @ show_nat (scaled_round m e div 1000000) @ ''.'' @
     pad_nat 6 (scaled_round m e mod 1000000)"

text \<open>
  \<open>t.Format(time.RFC3339Nano)\<close>, layout \<open>2006-01-02T15:04:05.999999999Z07:00\<close>: the
  fraction is left out when it is zero and loses its trailing zeros otherwise; the zone
  is \<open>Z\<close> at offset zero and \<open>+hh:mm\<close> or \<open>-hh:mm\<close> otherwise (Go's \<open>/\<close> truncates
  towards zero).
\<close>

definition trim_zeros :: "string \<Rightarrow> string" where
  "trim_zeros s = rev (dropWhile (\<lambda>c. c = CHR ''0'') (rev s))"

definition appendNano :: "nat \<Rightarrow> string" where
  "appendNano nanosec =
     (if nanosec = 0 then []
      else (let b = trim_zeros (''.'' @ pad_nat 9 nanosec)
            in if b \<noteq> [] \<and> last b = CHR ''.'' then butlast b else b))"

definition format_zone :: "int \<Rightarrow> string" where
  "format_zone offset =
     (if offset = 0 then ''Z''
      else (let zone = sgn offset * (\<bar>offset\<bar> div 60)
            in (if zone < 0 then ''-'' else ''+'') @
               appendInt (\<bar>zone\<bar> div 60) 2 @ '':'' @ appendInt (\<bar>zone\<bar> mod 60) 2))"

definition Format_RFC3339Nano :: "gotime \<Rightarrow> string" where
  "Format_RFC3339Nano t =
     appendInt (year t) 4 @ ''-'' @ pad_nat 2 (month t) @ ''-'' @ pad_nat 2 (day t) @ ''T'' @
     pad_nat 2 (hour t) @ '':'' @ pad_nat 2 (minute t) @ '':'' @ pad_nat 2 (second t) @
     appendNano (nanosecond t) @ format_zone (zone_offset t)"

text \<open>
  \<open>fmt.Sprintf("%s", v)\<close> on an integer: the verb does not apply, and fmt prints
  \<open>%!s(T=n)\<close> with the type and the value.
\<close>

definition bad_verb_s :: "string \<Rightarrow> string \<Rightarrow> string" where
  "bad_verb_s ty n = ''%!s('' @ ty @ ''='' @ n @ '')''"

text \<open>
  The conversion of one column value in \<open>QueryString\<close>: \<open>str\<close> stays \<open>""\<close> for nil;
  then the cases of the type switch in their order; the equations from \<open>VBytes\<close> on are
  the \<open>default\<close> branch \<open>fmt.Sprintf("%s", v)\<close> on the types no case names.
\<close>

fun stringify :: "val \<Rightarrow> string" where
  "stringify VNil = []"
| "stringify (VString s) = s"
| "stringify (VInt64 n) = show_int (sint n)"
| "stringify (VInt32 n) = show_int (sint n)"
| "stringify (VInt16 n) = show_int (sint n)"
| "stringify (VUint8 n) = fmt_c n"
| "stringify (VFloat32 x) = fmt_f x"
| "stringify (VFloat64 x) = fmt_f x"
| "stringify (VBool b) = (if b then ''true'' else ''false'')"
| "stringify (VTime t) = Format_RFC3339Nano t"
| "stringify (VBytes bs) = bs"
| "stringify (VInt8 n) = bad_verb_s ''int8'' (show_int (sint n))"
| "stringify (VInt n) = bad_verb_s ''int'' (show_int (sint n))"
| "stringify (VUint16 n) = bad_verb_s ''uint16'' (show_nat (unat n))"
| "stringify (VUint32 n) = bad_verb_s ''uint32'' (show_nat (unat n))"
| "stringify (VUint64 n) = bad_verb_s ''uint64'' (show_nat (unat n))"
| "stringify (VUint n) = bad_verb_s ''uint'' (show_nat (unat n))"

text \<open>
  Reading a decimal numeral back, to say what \<open>decimal rendering\<close> means: the value of
  a digit string, and of a digit string with an optional minus sign.
\<close>

definition digit_value :: "char \<Rightarrow> nat" where
  "digit_value c = of_char c - 48"

definition decimal_value :: "string \<Rightarrow> nat" where
  "decimal_value s = foldl (\<lambda>a c. 10 * a + digit_value c) 0 s"

definition is_digit :: "char \<Rightarrow> bool" where
  "is_digit c \<longleftrightarrow> c \<in> set ''0123456789''"

fun read_int :: "string \<Rightarrow> int" where
  "read_int [] = 0"
| "read_int (c # cs) = (if c = CHR ''-'' then - int (decimal_value cs) else int (decimal_value (c # cs)))"

section \<open>Record types as reflection shows them\<close>

text \<open>
  The type of a struct field: the predeclared \<open>string\<close>; a defined type of kind String
  (\<open>type Day string\<close>) with its \<open>Type.Name()\<close> and \<open>Type.String()\<close>; or a type of
  another kind with its \<open>Type.Name()\<close>, its \<open>Type.String()\<close> and whether a \<open>string\<close>
  value is assignable to it (true of empty interface types only).
\<close>

datatype ftype = TString | TDefinedString string string | TOther string string bool

fun type_Name :: "ftype \<Rightarrow> string" where
  "type_Name TString = ''string''"
| "type_Name (TDefinedString nm str) = nm"
| "type_Name (TOther nm str asg) = nm"

text \<open>
  One field of the record type: \<open>dbi\<close> is what \<open>f.Tag.Lookup("dbi")\<close> finds, \<open>None\<close>
  when the tag is empty or has no such key.
\<close>

record field =
  fname :: string
  ftyp :: ftype
  exported :: bool
  dbi :: "string option"

text \<open>The dynamic type of the target argument \<open>v\<close>.\<close>

datatype gotype = Struct "field list" | Ptr gotype | Slice gotype | Basic string

text \<open>
  The content of a field of a record instance: a text for a field of kind String; for a
  field of another kind its zero value or the value stored into it.
\<close>

datatype fieldval = FString string | FZero | FVal val

fun zero_value :: "ftype \<Rightarrow> fieldval" where
  "zero_value TString = FString []"
| "zero_value (TDefinedString nm str) = FString []"
| "zero_value (TOther nm str asg) = FZero"

text \<open>
  \<open>newe\<close> is \<open>reflect.New(t).Elem()\<close>, an addressable struct value: each of its
  fields is addressable, and can be set, and its address be taken as an interface
  value, exactly when the field is exported.
\<close>

definition CanSet :: "field \<Rightarrow> bool" where
  "CanSet f = exported f"

definition CanAddr :: "field \<Rightarrow> bool" where
  "CanAddr f = True"

definition Addr_CanInterface :: "field \<Rightarrow> bool" where
  "Addr_CanInterface f = exported f"

text \<open>
  \<open>reflect.Value.String()\<close>: the text of a value of kind String, and
  \<open><T Value>\<close> for a value of a type \<open>T\<close> of another kind.
\<close>

fun Value_String :: "ftype \<Rightarrow> fieldval \<Rightarrow> string" where
  "Value_String TString (FString s) = s"
| "Value_String TString x = []"
| "Value_String (TDefinedString nm str) (FString s) = s"
| "Value_String (TDefinedString nm str) x = []"
| "Value_String (TOther nm str asg) x = ''<'' @ str @ '' Value>''"

text \<open>
  \<open>Value.Set(reflect.ValueOf(s))\<close> for a text \<open>s\<close>, a value of type \<open>string\<close>: it
  panics unless a \<open>string\<close> is assignable to the field's type, which it is not to a
  defined type (\<open>Inl\<close> is the panic).
\<close>

definition not_assignable :: "string \<Rightarrow> string" where
  "not_assignable str = ''reflect.Set: value of type string is not assignable to type '' @ str"

fun Value_Set :: "ftype \<Rightarrow> string \<Rightarrow> string + fieldval" where
  "Value_Set TString s = Inr (FString s)"
| "Value_Set (TDefinedString nm str) s = Inl (not_assignable str)"
| "Value_Set (TOther nm str asg) s =
     (if asg then Inr (FVal (VString s)) else Inl (not_assignable str))"

text \<open>What a call does: it returns, or it panics.\<close>

datatype 'a outcome = Returns 'a | Panics string

section \<open>The database collaborator\<close>

text \<open>\<open>Config\<close> of dbi.go; the handle \<open>db\<close> is the backend and connection state below.\<close>

record Config =
  Name :: string
  User :: string
  Password :: string
  SSLMode :: string
  Driver :: string
  Host :: string

datatype txoptions = TxOptions (Isolation: nat) (ReadOnly: bool)

text \<open>The calls that reach the database through \<open>database/sql\<close>, in the order made.\<close>

datatype call =
    TxBegin "txoptions option"
  | TxQuery string "val list"
  | TxPrepare string
  | StmtExec string "val list"
  | RowsNext
  | RowsScan
  | RowsClose
  | StmtClose
  | TxCommit
  | TxRollback

text \<open>
  An open result cursor (\<open>*sql.Rows\<close>): its column names, the rows still to come (a row
  is either the fault that reading it raises or its column values), and the fault that
  \<open>rows.Err()\<close> reports once iteration has stopped.
\<close>

record cursor =
  Columns :: "string list"
  pending :: "(error + val list) list"
  Err :: "error option"

text \<open>
  The connection is an external collaborator: its behaviour is a parameter. \<open>'st\<close> is the
  content of the database. A transaction works on its own copy of the content; a
  statement that fails leaves that copy as it was and the transaction usable (as a
  statement refused on the client side does with every driver). \<open>scan_string i c ty v\<close>
  is what \<open>rows.Scan\<close> does with the value \<open>v\<close> of column \<open>c\<close> at index \<open>i\<close> when
  its destination is a field of type \<open>ty\<close>, of kind String: the text stored, or the
  error returned; \<open>scan_other i c ty v\<close> is the same for a destination of another kind.

  One more thing is decided outside the code: the order in which a \<open>range\<close> statement
  visits the keys of a map, which Go leaves unspecified. \<open>range_order\<close> ranks the keys:
  a loop over a map visits them by ascending rank (keys of equal rank in the order they
  were inserted), so every order of distinct keys is the order of some ranking.
\<close>

record 'st backend =
  begin_tx :: "txoptions option \<Rightarrow> 'st \<Rightarrow> error option"
  tx_query :: "string \<Rightarrow> val list \<Rightarrow> 'st \<Rightarrow> error + ('st \<times> cursor)"
  tx_prepare :: "string \<Rightarrow> 'st \<Rightarrow> error option"
  stmt_exec :: "string \<Rightarrow> val list \<Rightarrow> 'st \<Rightarrow> error + 'st"
  tx_commit :: "'st \<Rightarrow> error option"
  scan_string :: "nat \<Rightarrow> string \<Rightarrow> ftype \<Rightarrow> val \<Rightarrow> error + string"
  scan_other :: "nat \<Rightarrow> string \<Rightarrow> ftype \<Rightarrow> val \<Rightarrow> error + val"
  range_order :: "string \<Rightarrow> nat"

text \<open>The database as the callers see it: the committed content and the calls made.\<close>

record 'st db =
  stored :: 'st
  calls :: "call list"

definition called :: "call list \<Rightarrow> 'st db \<Rightarrow> 'st db" where
  "called cs d = d\<lparr>calls := calls d @ cs\<rparr>"

text \<open>
  The closure every transactional operation defers after \<open>Begin\<close>:
  \<^verbatim>\<open>
  defer func() {
      if p := recover(); p != nil { tx.Rollback(); panic(p)
      } else if err != nil { tx.Rollback()
      } else { err = tx.Commit() }
  }()
  \<close>
  \<open>p\<close> is what \<open>recover()\<close> returns, \<open>err\<close> the value of the variable \<open>err\<close> of the
  function's outermost scope when the closure runs, \<open>tx\<close> the content the transaction
  works on. The result is the new value of that variable and the database. A commit that
  succeeds makes the transaction's content the committed one; a commit that fails and a
  rollback leave the committed content as it was.
\<close>

definition deferred_end ::
  "'st backend \<Rightarrow> string option \<Rightarrow> error option \<Rightarrow> 'st \<Rightarrow> 'st db \<Rightarrow> error option \<times> 'st db" where
  "deferred_end b p err tx d =
     (if p \<noteq> None then (err, called [TxRollback] d)
      else if err \<noteq> None then (err, called [TxRollback] d)
      else (case tx_commit b tx of
              None \<Rightarrow> (None, called [TxCommit] (d\<lparr>stored := tx\<rparr>))
            | Some e \<Rightarrow> (Some e, called [TxCommit] d)))"

section \<open>MultiQuery and its wrappers\<close>

type_synonym row = "string \<rightharpoonup> val"

text \<open>
  \<open>rows.Scan(columnPointers...)\<close> where every destination is a \<open>*interface{}\<close>: the
  value is stored as it comes, so only the cursor's own fault or a wrong number of
  destinations makes it fail.
\<close>

definition scan_count_error :: "nat \<Rightarrow> nat \<Rightarrow> error" where
  "scan_count_error want got =
     ''sql: expected '' @ show_nat want @ '' destination arguments in Scan, not '' @ show_nat got"

fun scan_generic :: "nat \<Rightarrow> error + val list \<Rightarrow> error + val list" where
  "scan_generic n (Inl e) = Inl e"
| "scan_generic n (Inr vals) =
     (if length vals \<noteq> n then Inl (scan_count_error (length vals) n) else Inr vals)"

text \<open>The map \<open>m\<close> of one row: \<open>m[colName] = *val\<close> for each column in order.\<close>

definition row_map :: "string list \<Rightarrow> val list \<Rightarrow> row" where
  "row_map cols columns = fold (\<lambda>(colName, v) m. m(colName \<mapsto> v)) (zip cols columns) Map.empty"

text \<open>The loop \<open>for rows.Next()\<close> of \<open>MultiQuery\<close>; \<open>Inl\<close> is the \<open>return nil, err\<close>.\<close>

fun mq_rows ::
  "string list \<Rightarrow> (error + val list) list \<Rightarrow> row list \<Rightarrow> call list \<Rightarrow>
   (error + row list) \<times> call list" where
  "mq_rows cols [] rowset cs = (Inr rowset, cs @ [RowsNext])"
| "mq_rows cols (r # rs) rowset cs =
     (case scan_generic (length cols) r of
        Inl err \<Rightarrow> (Inl err, cs @ [RowsNext, RowsScan])
      | Inr columns \<Rightarrow>
          mq_rows cols rs (rowset @ [row_map cols columns]) (cs @ [RowsNext, RowsScan]))"

text \<open>
  The loop \<open>for i, s := range sql\<close> over the statements paired with \<open>args[i]\<close>. Its
  \<open>rows, err := tx.Query(...)\<close> declares a new \<open>err\<close> inside the loop body, and
  \<open>err = rows.Err()\<close> and the \<open>return nil, err\<close> of the body use that one: the variable
  \<open>err\<close> of the function's outermost scope is not assigned here. \<open>opened\<close> counts the
  deferred \<open>rows.Close()\<close>.
\<close>

fun mq_stmts ::
  "'st backend \<Rightarrow> string \<Rightarrow> (string \<times> val list) list \<Rightarrow> 'st \<Rightarrow> 'st db \<Rightarrow> row list list \<Rightarrow> nat \<Rightarrow>
   (error + row list list) \<times> 'st \<times> 'st db \<times> nat" where
  "mq_stmts b drv [] tx d ret opened = (Inr ret, tx, d, opened)"
| "mq_stmts b drv ((s0, a) # rest) tx d ret opened =
     (let s = (if drv = ''postgres'' then postgresPlaceholders s0 else s0);
          d1 = called [TxQuery s a] d
      in case tx_query b s a tx of
           Inl err \<Rightarrow> (Inl err, tx, d1, opened)
         | Inr (tx', cur) \<Rightarrow>
             (case mq_rows (Columns cur) (pending cur) [] (calls d1) of
                (Inl err, cs) \<Rightarrow> (Inl err, tx', d1\<lparr>calls := cs\<rparr>, opened + 1)
              | (Inr rowset, cs) \<Rightarrow>
                  (case Err cur of
                     Some err \<Rightarrow> (Inl err, tx', d1\<lparr>calls := cs\<rparr>, opened + 1)
                   | None \<Rightarrow>
                       mq_stmts b drv rest tx' (d1\<lparr>calls := cs\<rparr>) (ret @ [rowset]) (opened + 1))))"

text \<open>
  \<open>MultiQuery\<close> returns a pair (result sets, error); a nil slice is the empty list. The
  padding loop appends an empty argument list while \<open>len(sql) > len(args)\<close>. The
  results are unnamed, so the \<open>return\<close> statement fixes them before the deferred calls
  run (the \<open>rows.Close()\<close> first, the closure last), and what the closure assigns to
  \<open>err\<close> is not returned.
\<close>

definition MultiQuery ::
  "'st backend \<Rightarrow> Config \<Rightarrow> 'st db \<Rightarrow> string list \<Rightarrow> val list list \<Rightarrow>
   (row list list \<times> error option) \<times> 'st db" where
  "MultiQuery b c d sql args0 =
     (case begin_tx b None (stored d) of
        Some err \<Rightarrow> (([], Some err), called [TxBegin None] d)
      | None \<Rightarrow>
          (let err = None;
               args = args0 @ replicate (length sql - length args0) [];
               (res, tx, d1, opened) =
                  mq_stmts b (Driver c) (zip sql args) (stored d) (called [TxBegin None] d) [] 0;
               result = (case res of Inl e \<Rightarrow> ([], Some e) | Inr ret \<Rightarrow> (ret, err));
               (err', d2) = deferred_end b None err tx (called (replicate opened RowsClose) d1)
           in (result, d2)))"

text \<open>
  The wrappers call \<open>MultiQuery([]string{sql}, args)\<close> and read \<open>rows[0]\<close>, which
  panics on an empty slice.
\<close>

definition index_panic :: string where
  "index_panic = ''runtime error: index out of range [0] with length 0''"

definition Query ::
  "'st backend \<Rightarrow> Config \<Rightarrow> 'st db \<Rightarrow> string \<Rightarrow> val list \<Rightarrow>
   (row list \<times> error option) outcome \<times> 'st db" where
  "Query b c d sql args =
     (case MultiQuery b c d [sql] [args] of
        ((rows, Some err), d') \<Rightarrow> (Returns ([], Some err), d')
      | ((rows, None), d') \<Rightarrow>
          (case rows of
             [] \<Rightarrow> (Panics index_panic, d')
           | r0 # rs \<Rightarrow> (Returns (r0, None), d')))"

definition QueryInterface ::
  "'st backend \<Rightarrow> Config \<Rightarrow> 'st db \<Rightarrow> string \<Rightarrow> val list \<Rightarrow>
   (row list \<times> error option) outcome \<times> 'st db" where
  "QueryInterface b c d sql args =
     (case MultiQuery b c d [sql] [args] of
        ((rows, Some err), d') \<Rightarrow> (Returns ([], Some err), d')
      | ((rows, None), d') \<Rightarrow>
          (case rows of
             [] \<Rightarrow> (Panics index_panic, d')
           | r0 # rs \<Rightarrow> (Returns (map (\<lambda>row. (\<lambda>k. row k)) r0, None), d')))"

definition QueryString ::
  "'st backend \<Rightarrow> Config \<Rightarrow> 'st db \<Rightarrow> string \<Rightarrow> val list \<Rightarrow>
   ((string \<rightharpoonup> string) list \<times> error option) outcome \<times> 'st db" where
  "QueryString b c d sql args =
     (case MultiQuery b c d [sql] [args] of
        ((rows, Some err), d') \<Rightarrow> (Returns ([], Some err), d')
      | ((rows, None), d') \<Rightarrow>
          (case rows of
             [] \<Rightarrow> (Panics index_panic, d')
           | r0 # rs \<Rightarrow> (Returns (map (\<lambda>row k. map_option stringify (row k)) r0, None), d')))"

section \<open>Upsert and Transaction\<close>

text \<open>
  The loop \<open>for i, a := range array\<close> of \<open>Upsert\<close>. The \<open>err\<close> of
  \<open>if _, err := stmt.Exec(a...); err != nil\<close> belongs to the \<open>if\<close> statement; the
  error returned is built from it and from the index \<open>i\<close>.
\<close>

fun upsert_rows ::
  "'st backend \<Rightarrow> string \<Rightarrow> val list list \<Rightarrow> nat \<Rightarrow> 'st \<Rightarrow> call list \<Rightarrow>
   error option \<times> 'st \<times> call list" where
  "upsert_rows b sql [] i tx cs = (None, tx, cs)"
| "upsert_rows b sql (a # array) i tx cs =
     (case stmt_exec b sql a tx of
        Inl err \<Rightarrow>
          (Some (''upsert on row '' @ show_nat i @ '' failed: '' @ err), tx, cs @ [StmtExec sql a])
      | Inr tx' \<Rightarrow> upsert_rows b sql array (i + 1) tx' (cs @ [StmtExec sql a]))"

text \<open>
  \<open>Upsert\<close>. \<open>stmt, err := tx.Prepare(sql)\<close> stands in the function's outermost
  scope and assigns the \<open>err\<close> declared by \<open>tx, err := c.db.Begin()\<close>; the loop does
  not. The result is unnamed: the \<open>return\<close> statement fixes it before \<open>stmt.Close()\<close>
  and the closure run.
\<close>

definition Upsert ::
  "'st backend \<Rightarrow> Config \<Rightarrow> 'st db \<Rightarrow> string \<Rightarrow> val list list \<Rightarrow> error option \<times> 'st db" where
  "Upsert b c d sql0 array =
     (let sql = (if Driver c = ''postgres'' then postgresPlaceholders sql0 else sql0)
      in case begin_tx b None (stored d) of
           Some err \<Rightarrow> (Some err, called [TxBegin None] d)
         | None \<Rightarrow>
             (let d0 = called [TxBegin None, TxPrepare sql] d
              in case tx_prepare b sql (stored d) of
                   Some err \<Rightarrow> (Some err, snd (deferred_end b None (Some err) (stored d) d0))
                 | None \<Rightarrow>
                     (let err = None;
                          (res, tx, cs) = upsert_rows b sql array 0 (stored d) (calls d0);
                          result = (case res of Some e \<Rightarrow> Some e | None \<Rightarrow> err);
                          (err', d1) = deferred_end b None err tx (d0\<lparr>calls := cs @ [StmtClose]\<rparr>)
                      in (result, d1))))"

text \<open>
  \<open>Transaction\<close>: the loop that prepares every statement (its \<open>stmt, err :=\<close> is
  inside the loop body), then the loops over the sets and their rows.
\<close>

fun tr_prepare ::
  "'st backend \<Rightarrow> string \<Rightarrow> string list \<Rightarrow> 'st \<Rightarrow> string list \<Rightarrow> call list \<Rightarrow>
   error option \<times> string list \<times> call list" where
  "tr_prepare b drv [] tx stmtlist cs = (None, stmtlist, cs)"
| "tr_prepare b drv (s0 # sqls) tx stmtlist cs =
     (let s = (if drv = ''postgres'' then postgresPlaceholders s0 else s0)
      in case tx_prepare b s tx of
           Some err \<Rightarrow> (Some err, stmtlist, cs @ [TxPrepare s])
         | None \<Rightarrow> tr_prepare b drv sqls tx (stmtlist @ [s]) (cs @ [TxPrepare s]))"

fun tr_rows ::
  "'st backend \<Rightarrow> string \<Rightarrow> nat \<Rightarrow> val list list \<Rightarrow> nat \<Rightarrow> 'st \<Rightarrow> call list \<Rightarrow>
   error option \<times> 'st \<times> call list" where
  "tr_rows b stmt setno [] rowno tx cs = (None, tx, cs)"
| "tr_rows b stmt setno (row # rows) rowno tx cs =
     (case stmt_exec b stmt row tx of
        Inl err \<Rightarrow>
          (Some (''sql set '' @ show_nat (setno + 1) @ '', row '' @ show_nat (rowno + 1) @ '': '' @ err),
           tx, cs @ [StmtExec stmt row])
      | Inr tx' \<Rightarrow> tr_rows b stmt setno rows (rowno + 1) tx' (cs @ [StmtExec stmt row]))"

fun tr_sets ::
  "'st backend \<Rightarrow> (string \<times> val list list) list \<Rightarrow> nat \<Rightarrow> 'st \<Rightarrow> call list \<Rightarrow>
   error option \<times> 'st \<times> call list" where
  "tr_sets b [] setno tx cs = (None, tx, cs)"
| "tr_sets b ((stmt, rows) # sets) setno tx cs =
     (case tr_rows b stmt setno rows 0 tx cs of
        (Some e, tx', cs') \<Rightarrow> (Some e, tx', cs')
      | (None, tx', cs') \<Rightarrow> tr_sets b sets (setno + 1) tx' cs')"

text \<open>
  The variable \<open>err\<close> of the outermost scope is the one \<open>Begin\<close> set and no later
  statement assigns; every \<open>stmt.Close()\<close> deferred so far runs before the closure.
\<close>

definition Transaction ::
  "'st backend \<Rightarrow> Config \<Rightarrow> 'st db \<Rightarrow> string list \<Rightarrow> val list list list \<Rightarrow> error option \<times> 'st db" where
  "Transaction b c d sqls args =
     (if length sqls \<noteq> length args then (Some ''uneven set of sql and data'', d)
      else case begin_tx b None (stored d) of
             Some err \<Rightarrow> (Some err, called [TxBegin None] d)
           | None \<Rightarrow>
               (let err = None;
                    d0 = called [TxBegin None] d;
                    (perr, stmtlist, cs) = tr_prepare b (Driver c) sqls (stored d) [] (calls d0);
                    closes = replicate (length stmtlist) StmtClose
                in case perr of
                     Some e \<Rightarrow>
                       (Some e, snd (deferred_end b None err (stored d) (d0\<lparr>calls := cs @ closes\<rparr>)))
                   | None \<Rightarrow>
                       (let (res, tx, cs') = tr_sets b (zip stmtlist args) 0 (stored d) cs
                        in (res, snd (deferred_end b None err tx (d0\<lparr>calls := cs' @ closes\<rparr>))))))"

section \<open>Unmarshal (unmarshal.go)\<close>

text \<open>
  \<open>taggroup\<close>. \<open>Options\<close> is a Go map used as a set of option names; the code asks only
  whether it is empty and whether a name is in it, so it is the list of option tokens.
\<close>

record taggroup =
  Field :: string
  Column :: string
  Options :: "string list"

text \<open>
  The loop over the fields that fills \<open>populate\<close>, a Go map from column name to
  \<open>taggroup\<close>, kept here as an association list in insertion order; keys stay unique
  because a second claim of a column returns the error. \<open>field_tag\<close> is the part of
  the loop body that builds \<open>tag\<close> for one field: the tag text is split at the commas,
  the first piece is the column (a field with an empty one is skipped), the others are
  the options.
\<close>

definition field_tag :: "field \<Rightarrow> taggroup option" where
  "field_tag f =
     (case dbi f of
        None \<Rightarrow> None
      | Some tag \<Rightarrow>
          (case split_on (CHR '','') [] tag of
             [] \<Rightarrow> None
           | col # opts \<Rightarrow>
               if col \<noteq> [] then Some \<lparr>Field = fname f, Column = col, Options = opts\<rparr>
               else None))"

definition duplicate_error :: "string \<Rightarrow> error" where
  "duplicate_error col = ''dbi: column '' @ col @ '' used on multiple fields''"

fun collect_tags ::
  "field list \<Rightarrow> (string \<times> taggroup) list \<Rightarrow> error + (string \<times> taggroup) list" where
  "collect_tags [] populate = Inr populate"
| "collect_tags (f # fs) populate =
     (case field_tag f of
        None \<Rightarrow> collect_tags fs populate
      | Some tag \<Rightarrow>
          if map_of populate (Column tag) \<noteq> None then Inl (duplicate_error (Column tag))
          else collect_tags fs (populate @ [(Column tag, tag)]))"

text \<open>
  The check that every claimed column is among the result's columns:
  \<^verbatim>\<open>
  for c := range populate {
      if _, ok := colCheck[c]; !ok { return fmt.Errorf(..., c) }
  }
  \<close>
  The loop ranges over the map, so the column named is the first missing one in the order
  of this run, given by the ranking \<open>rank\<close> of the keys.
\<close>

definition missing_column ::
  "(string \<Rightarrow> nat) \<Rightarrow> (string \<times> taggroup) list \<Rightarrow> string list \<Rightarrow> string option" where
  "missing_column rank populate cols =
     find (\<lambda>c. c \<notin> set cols) (sort_key rank (map fst populate))"

definition missing_column_error :: "string \<Rightarrow> error" where
  "missing_column_error c = ''dbi: query didn'' @ [CHR 0x27] @ ''t return any columns with name '' @ c"

text \<open>
  A destination handed to \<open>rows.Scan\<close>: the address of field \<open>j\<close> of the new record
  (with the field's type), or the address of the scratch slot \<open>columns[i]\<close>.
\<close>

datatype dest = ToField nat ftype | ToScratch

text \<open>The inner loop \<open>for j := 0; j < t.NumField(); j++\<close>: the first field that passes.\<close>

fun find_field :: "field list \<Rightarrow> string \<Rightarrow> nat \<Rightarrow> (nat \<times> field) option" where
  "find_field [] nm j = None"
| "find_field (f # fs) nm j =
     (if fname f = nm \<and> CanSet f \<and> CanAddr f \<and> Addr_CanInterface f then Some (j, f)
      else find_field fs nm (j + 1))"

record bindings =
  columnPointers :: "dest list"
  dateOptions :: "nat list"
  aggOptions :: "nat list"

text \<open>One round of \<open>colLoop\<close>, for the result column named \<open>col\<close>.\<close>

definition colLoop_step ::
  "(string \<times> taggroup) list \<Rightarrow> field list \<Rightarrow> bindings \<Rightarrow> string \<Rightarrow> bindings" where
  "colLoop_step populate fs bs col =
     (case map_of populate col of
        None \<Rightarrow> bs\<lparr>columnPointers := columnPointers bs @ [ToScratch]\<rparr>
      | Some p \<Rightarrow>
          (case find_field fs (Field p) 0 of
             None \<Rightarrow> bs\<lparr>columnPointers := columnPointers bs @ [ToScratch]\<rparr>
           | Some (j, f) \<Rightarrow>
               (let agg = (Options p \<noteq> [] \<and> ''agg'' \<in> set (Options p));
                    date = (Options p \<noteq> [] \<and> ''date'' \<in> set (Options p) \<and>
                            type_Name (ftyp f) = ''string'')
                in \<lparr>columnPointers =
                      columnPointers bs @ [if agg then ToScratch else ToField j (ftyp f)],
                    dateOptions = (if date then dateOptions bs @ [j] else dateOptions bs),
                    aggOptions = (if agg then aggOptions bs @ [j] else aggOptions bs)\<rparr>)))"

fun colLoop ::
  "(string \<times> taggroup) list \<Rightarrow> field list \<Rightarrow> string list \<Rightarrow> bindings \<Rightarrow> bindings" where
  "colLoop populate fs [] bs = bs"
| "colLoop populate fs (col # cols) bs = colLoop populate fs cols (colLoop_step populate fs bs col)"

text \<open>
  \<open>rows.Scan(columnPointers...)\<close>: destination by destination in column order; a
  value for a scratch slot is stored there as it comes, a value for a field goes
  through the conversion of \<open>database/sql\<close>; the first error ends the call.
\<close>

fun scan_dest :: "'st backend \<Rightarrow> nat \<Rightarrow> string \<Rightarrow> ftype \<Rightarrow> val \<Rightarrow> error + fieldval" where
  "scan_dest b i c TString v =
     (case scan_string b i c TString v of Inl err \<Rightarrow> Inl err | Inr s \<Rightarrow> Inr (FString s))"
| "scan_dest b i c (TDefinedString nm str) v =
     (case scan_string b i c (TDefinedString nm str) v of
        Inl err \<Rightarrow> Inl err
      | Inr s \<Rightarrow> Inr (FString s))"
| "scan_dest b i c (TOther nm str asg) v =
     (case scan_other b i c (TOther nm str asg) v of Inl err \<Rightarrow> Inl err | Inr x \<Rightarrow> Inr (FVal x))"

fun scan_dests ::
  "'st backend \<Rightarrow> nat \<Rightarrow> string list \<Rightarrow> dest list \<Rightarrow> val list \<Rightarrow> fieldval list \<Rightarrow>
   error + fieldval list" where
  "scan_dests b i (c # cols) (ToScratch # ds) (v # vs) newe = scan_dests b (i + 1) cols ds vs newe"
| "scan_dests b i (c # cols) (ToField j ty # ds) (v # vs) newe =
     (case scan_dest b i c ty v of
        Inl err \<Rightarrow> Inl err
      | Inr x \<Rightarrow> scan_dests b (i + 1) cols ds vs (newe[j := x]))"
| "scan_dests b i cols ds vs newe = Inr newe"

definition rows_Scan ::
  "'st backend \<Rightarrow> string list \<Rightarrow> dest list \<Rightarrow> error + val list \<Rightarrow> fieldval list \<Rightarrow>
   error + fieldval list" where
  "rows_Scan b cols ptrs r newe =
     (case r of
        Inl err \<Rightarrow> Inl err
      | Inr vals \<Rightarrow>
          if length vals \<noteq> length ptrs then Inl (scan_count_error (length vals) (length ptrs))
          else scan_dests b 0 cols ptrs vals newe)"

text \<open>
  The loop over \<open>dateOptions\<close> and the loop over \<open>aggOptions\<close> have the same body:
  \<^verbatim>\<open>
  if newe.Field(i).CanSet() {
      str := newe.Field(i).String()
      if len(str) > 10 { newe.Field(i).Set(reflect.ValueOf(str[0:10])) }
  }
  \<close>
  The indices are field positions found by \<open>find_field\<close>.
\<close>

fun truncate_fields :: "field list \<Rightarrow> nat list \<Rightarrow> fieldval list \<Rightarrow> fieldval list outcome" where
  "truncate_fields fs [] newe = Returns newe"
| "truncate_fields fs (i # js) newe =
     (if CanSet (fs ! i) then
        (if length (Value_String (ftyp (fs ! i)) (newe ! i)) > 10 then
           (case Value_Set (ftyp (fs ! i)) (take 10 (Value_String (ftyp (fs ! i)) (newe ! i))) of
              Inl p \<Rightarrow> Panics p
            | Inr x \<Rightarrow> truncate_fields fs js (newe[i := x]))
         else truncate_fields fs js newe)
      else truncate_fields fs js newe)"

text \<open>
  One row: the new record \<open>newe\<close> with every field at its zero value, the bindings,
  the scan (\<open>scan_record\<close>), then the two loops (\<open>coerce_record\<close>).
\<close>

definition new_record :: "field list \<Rightarrow> fieldval list" where
  "new_record fs = map (\<lambda>f. zero_value (ftyp f)) fs"

definition row_bindings :: "(string \<times> taggroup) list \<Rightarrow> field list \<Rightarrow> string list \<Rightarrow> bindings" where
  "row_bindings populate fs cols =
     colLoop populate fs cols \<lparr>columnPointers = [], dateOptions = [], aggOptions = []\<rparr>"

definition scan_record ::
  "'st backend \<Rightarrow> (string \<times> taggroup) list \<Rightarrow> field list \<Rightarrow> string list \<Rightarrow> error + val list \<Rightarrow>
   error + fieldval list" where
  "scan_record b populate fs cols r =
     rows_Scan b cols (columnPointers (row_bindings populate fs cols)) r (new_record fs)"

definition coerce_record ::
  "(string \<times> taggroup) list \<Rightarrow> field list \<Rightarrow> string list \<Rightarrow> fieldval list \<Rightarrow> fieldval list outcome" where
  "coerce_record populate fs cols newe =
     (case truncate_fields fs (dateOptions (row_bindings populate fs cols)) newe of
        Panics p \<Rightarrow> Panics p
      | Returns newe' \<Rightarrow> truncate_fields fs (aggOptions (row_bindings populate fs cols)) newe')"

text \<open>
  The loop \<open>for rows.Next()\<close> of \<open>unmarshal\<close>: each record is appended to the target
  slice as soon as it is complete. The result is the error the loop returns with
  (\<open>None\<close> when the cursor is exhausted) or the panic.
\<close>

fun um_rows ::
  "'st backend \<Rightarrow> (string \<times> taggroup) list \<Rightarrow> field list \<Rightarrow> string list \<Rightarrow>
   (error + val list) list \<Rightarrow> fieldval list list \<Rightarrow> call list \<Rightarrow>
   error option outcome \<times> fieldval list list \<times> call list" where
  "um_rows b populate fs cols [] targetSlice cs = (Returns None, targetSlice, cs @ [RowsNext])"
| "um_rows b populate fs cols (r # rs) targetSlice cs =
     (case scan_record b populate fs cols r of
        Inl err \<Rightarrow> (Returns (Some (''dbi: row scan: '' @ err)), targetSlice, cs @ [RowsNext, RowsScan])
      | Inr newe \<Rightarrow>
          (case coerce_record populate fs cols newe of
             Panics p \<Rightarrow> (Panics p, targetSlice, cs @ [RowsNext, RowsScan])
           | Returns n \<Rightarrow>
               um_rows b populate fs cols rs (targetSlice @ [n]) (cs @ [RowsNext, RowsScan])))"

definition shape_error :: error where
  "shape_error = ''dbi: argument must be a ponter to a slice with pointers to a struct''"

text \<open>
  \<open>unmarshal\<close>. \<open>v\<close> is the dynamic type of the target argument (\<open>None\<close> for a nil
  interface, on which \<open>reflect.TypeOf(v).Kind()\<close> panics); \<open>target\<close> is what the
  pointer points to: the records the caller's slice holds, or \<open>None\<close> when the pointer
  is nil. \<open>reflect.ValueOf(v).Elem()\<close> of a nil pointer is the zero \<open>Value\<close>, for which
  \<open>CanSet\<close> is false; of any other pointer it is addressable and can be set. So
  \<open>!targetSlice.CanSet()\<close> is the case \<open>None\<close> of \<open>target\<close>. The result is unnamed and
  fixed by the \<open>return\<close> statement; then \<open>rows.Close()\<close> and the closure run.
  \<open>rows, err := tx.Query(SQL, args...)\<close> stands in the outermost scope and assigns the
  function's \<open>err\<close>; the \<open>err\<close> of \<open>if err := rows.Scan(...)\<close> and
  \<open>if err := rows.Err()\<close> belong to their \<open>if\<close> statements.
\<close>

definition unmarshal ::
  "'st backend \<Rightarrow> Config \<Rightarrow> 'st db \<Rightarrow> txoptions option \<Rightarrow> gotype option \<Rightarrow>
   fieldval list list option \<Rightarrow> string \<Rightarrow> val list \<Rightarrow>
   error option outcome \<times> fieldval list list option \<times> 'st db" where
  "unmarshal b c d txOpts v target SQL0 args =
     (case v of
        None \<Rightarrow> (Panics ''runtime error: invalid memory address or nil pointer dereference'',
                 target, d)
      | Some (Ptr (Slice (Ptr (Struct fs)))) \<Rightarrow>
          (case target of
             None \<Rightarrow> (Returns (Some ''dbi: unable to set/change slice''), None, d)
           | Some targetSlice \<Rightarrow>
            (case collect_tags fs [] of
               Inl e \<Rightarrow> (Returns (Some e), Some targetSlice, d)
             | Inr populate \<Rightarrow>
                 (let SQL = (if Driver c = ''postgres'' then postgresPlaceholders SQL0 else SQL0)
                  in case begin_tx b txOpts (stored d) of
                       Some err \<Rightarrow>
                         (Returns (Some (''dbi: begin: '' @ err)), Some targetSlice,
                          called [TxBegin txOpts] d)
                     | None \<Rightarrow>
                         (let d0 = called [TxBegin txOpts, TxQuery SQL args] d
                          in case tx_query b SQL args (stored d) of
                               Inl err \<Rightarrow>
                                 (Returns (Some (''dbi: query: '' @ err)), Some targetSlice,
                                  snd (deferred_end b None (Some err) (stored d) d0))
                             | Inr (tx, cur) \<Rightarrow>
                                 (let err = None
                                  in case missing_column (range_order b) populate (Columns cur) of
                                       Some col \<Rightarrow>
                                         (Returns (Some (missing_column_error col)), Some targetSlice,
                                          snd (deferred_end b None err tx (called [RowsClose] d0)))
                                     | None \<Rightarrow>
                                         (case um_rows b populate fs (Columns cur) (pending cur)
                                                 targetSlice (calls d0) of
                                            (Panics p, ts, cs) \<Rightarrow>
                                              (Panics p, Some ts,
                                               snd (deferred_end b (Some p) err tx
                                                      (d0\<lparr>calls := cs @ [RowsClose]\<rparr>)))
                                          | (Returns (Some e), ts, cs) \<Rightarrow>
                                              (Returns (Some e), Some ts,
                                               snd (deferred_end b None err tx
                                                      (d0\<lparr>calls := cs @ [RowsClose]\<rparr>)))
                                          | (Returns None, ts, cs) \<Rightarrow>
                                              (case Err cur of
                                                 Some e \<Rightarrow>
                                                   (Returns (Some (''dbi: rows: '' @ e)), Some ts,
                                                    snd (deferred_end b None err tx
                                                           (d0\<lparr>calls := cs @ [RowsClose]\<rparr>)))
                                               | None \<Rightarrow>
                                                   (Returns err, Some ts,
                                                    snd (deferred_end b None err tx
                                                           (d0\<lparr>calls := cs @ [RowsClose]\<rparr>))))))))))
      | Some other \<Rightarrow> (Returns (Some shape_error), target, d))"

definition Unmarshal ::
  "'st backend \<Rightarrow> Config \<Rightarrow> 'st db \<Rightarrow> gotype option \<Rightarrow> fieldval list list option \<Rightarrow>
   string \<Rightarrow> val list \<Rightarrow> error option outcome \<times> fieldval list list option \<times> 'st db" where
  "Unmarshal b c d v target SQL args = unmarshal b c d None v target SQL args"

definition UnmarshalReadOnly ::
  "'st backend \<Rightarrow> Config \<Rightarrow> 'st db \<Rightarrow> gotype option \<Rightarrow> fieldval list list option \<Rightarrow>
   string \<Rightarrow> val list \<Rightarrow> error option outcome \<times> fieldval list list option \<times> 'st db" where
  "UnmarshalReadOnly b c d v target SQL args =
     unmarshal b c d (Some (TxOptions 0 True)) v target SQL args"

definition UnmarshalWithOptions ::
  "'st backend \<Rightarrow> Config \<Rightarrow> 'st db \<Rightarrow> txoptions option \<Rightarrow> gotype option \<Rightarrow>
   fieldval list list option \<Rightarrow> string \<Rightarrow> val list \<Rightarrow>
   error option outcome \<times> fieldval list list option \<times> 'st db" where
  "UnmarshalWithOptions b c d txOpts v target SQL args =
     unmarshal b c d txOpts v target SQL args"

section \<open>Notions used in the statements about Unmarshal\<close>

text \<open>
  A Go struct type has no two fields of the same name, the blank name \<open>_\<close> apart, and a
  blank field is not exported: the name of a field that can be set occurs once.
\<close>

definition unique_names :: "field list \<Rightarrow> bool" where
  "unique_names fs \<longleftrightarrow> (\<forall>f \<in> set fs. CanSet f \<longrightarrow> count_list (map fname fs) (fname f) = 1)"

text \<open>
  The struct type with the \<open>dbi\<close> tag of field \<open>j\<close> taken away; name, type and
  exportedness of the field stay.
\<close>

definition untagged :: "field list \<Rightarrow> nat \<Rightarrow> field list" where
  "untagged fs j = fs[j := (fs ! j)\<lparr>dbi := None\<rparr>]"

text \<open>What one round of \<open>colLoop\<close> adds to each of its three lists.\<close>

definition step_dest :: "(string \<times> taggroup) list \<Rightarrow> field list \<Rightarrow> string \<Rightarrow> dest" where
  "step_dest populate fs col =
     (case map_of populate col of
        None \<Rightarrow> ToScratch
      | Some p \<Rightarrow>
          (case find_field fs (Field p) 0 of
             None \<Rightarrow> ToScratch
           | Some (j, f) \<Rightarrow>
               if Options p \<noteq> [] \<and> ''agg'' \<in> set (Options p) then ToScratch else ToField j (ftyp f)))"

definition step_date :: "(string \<times> taggroup) list \<Rightarrow> field list \<Rightarrow> string \<Rightarrow> nat list" where
  "step_date populate fs col =
     (case map_of populate col of
        None \<Rightarrow> []
      | Some p \<Rightarrow>
          (case find_field fs (Field p) 0 of
             None \<Rightarrow> []
           | Some (j, f) \<Rightarrow>
               if Options p \<noteq> [] \<and> ''date'' \<in> set (Options p) \<and> type_Name (ftyp f) = ''string''
               then [j] else []))"

definition step_agg :: "(string \<times> taggroup) list \<Rightarrow> field list \<Rightarrow> string \<Rightarrow> nat list" where
  "step_agg populate fs col =
     (case map_of populate col of
        None \<Rightarrow> []
      | Some p \<Rightarrow>
          (case find_field fs (Field p) 0 of
             None \<Rightarrow> []
           | Some (j, f) \<Rightarrow>
               if Options p \<noteq> [] \<and> ''agg'' \<in> set (Options p) then [j] else []))"

text \<open>The truncation rule on the content of a \<open>string\<close> field.\<close>

definition first10 :: "fieldval \<Rightarrow> fieldval" where
  "first10 x =
     (if length (Value_String TString x) > 10 then FString (take 10 (Value_String TString x)) else x)"

text \<open>
  The content a transaction reaches when the prepared statement is executed on each
  argument row in turn and every execution succeeds (\<open>None\<close> when one fails).
\<close>

fun exec_all :: "'st backend \<Rightarrow> string \<Rightarrow> val list list \<Rightarrow> 'st \<Rightarrow> 'st option" where
  "exec_all b sql [] tx = Some tx"
| "exec_all b sql (a # array) tx =
     (case stmt_exec b sql a tx of Inl err \<Rightarrow> None | Inr tx' \<Rightarrow> exec_all b sql array tx')"

text \<open>
  The record built from one row: scanned, then passed through the two loops; \<open>None\<close>
  when the scan returns an error or a loop panics.
\<close>

definition built_record ::
  "'st backend \<Rightarrow> (string \<times> taggroup) list \<Rightarrow> field list \<Rightarrow> string list \<Rightarrow> error + val list \<Rightarrow>
   fieldval list option" where
  "built_record b populate fs cols r =
     (case scan_record b populate fs cols r of
        Inl err \<Rightarrow> None
      | Inr newe \<Rightarrow>
          (case coerce_record populate fs cols newe of Panics p \<Rightarrow> None | Returns n \<Rightarrow> Some n))"

text \<open>
  The spec's words, for comparison with what the code does. \<open>characters\<close> is the number
  of characters of a text: a Go string holds UTF-8, where every byte but the
  continuation bytes \<open>0x80\<close> to \<open>0xBF\<close> starts a character. \<open>fixed_point\<close> is the
  shape of a number in fixed-point notation: an optional minus sign, digits, a point,
  digits.
\<close>

definition characters :: "string \<Rightarrow> nat" where
  "characters s = length (filter (\<lambda>c. \<not> (128 \<le> (of_char c :: nat) \<and> (of_char c :: nat) < 192)) s)"

definition fixed_point :: "string \<Rightarrow> bool" where
  "fixed_point s =
     (case dropWhile is_digit (if s \<noteq> [] \<and> hd s = CHR ''-'' then tl s else s) of
        [] \<Rightarrow> False
      | c # frac \<Rightarrow>
          takeWhile is_digit (if s \<noteq> [] \<and> hd s = CHR ''-'' then tl s else s) \<noteq> [] \<and>
          c = CHR ''.'' \<and> frac \<noteq> [] \<and> list_all is_digit frac)"

section \<open>A small backend to run the operations on\<close>

text \<open>
  The content is the journal of the statements executed. Every statement takes \<open>n\<close>
  arguments, and one called with another number of arguments is refused, as
  \<open>database/sql\<close> refuses it before it reaches the server. A query answers with the
  cursor \<open>cur\<close>; a commit answers \<open>commit_res\<close>. A field of kind String takes a text
  or byte value and refuses the others; a field of another kind takes any value. A
  map is ranged over in insertion order.
\<close>

definition arg_count_error :: "nat \<Rightarrow> nat \<Rightarrow> error" where
  "arg_count_error want got =
     ''sql: expected '' @ show_nat want @ '' arguments, got '' @ show_nat got"

fun example_scan_string :: "nat \<Rightarrow> string \<Rightarrow> ftype \<Rightarrow> val \<Rightarrow> error + string" where
  "example_scan_string i c ty (VString s) = Inr s"
| "example_scan_string i c ty (VBytes s) = Inr s"
| "example_scan_string i c ty v = Inl ''unsupported Scan, storing driver.Value into type *string''"

definition example_backend ::
  "nat \<Rightarrow> cursor \<Rightarrow> error option \<Rightarrow> ((string \<times> val list) list) backend" where
  "example_backend n cur commit_res =
     \<lparr>begin_tx = (\<lambda>opts st. None),
      tx_query = (\<lambda>s a st. if length a \<noteq> n then Inl (arg_count_error n (length a))
                            else Inr (st @ [(s, a)], cur)),
      tx_prepare = (\<lambda>s st. None),
      stmt_exec = (\<lambda>s a st. if length a \<noteq> n then Inl (arg_count_error n (length a))
                             else Inr (st @ [(s, a)])),
      tx_commit = (\<lambda>st. commit_res),
      scan_string = example_scan_string,
      scan_other = (\<lambda>i c ty v. Inr v),
      range_order = (\<lambda>c. 0)\<rparr>"

definition no_rows :: cursor where
  "no_rows = \<lparr>Columns = [], pending = [], Err = None\<rparr>"

definition empty_db :: "((string \<times> val list) list) db" where
  "empty_db = \<lparr>stored = [], calls = []\<rparr>"

definition example_config :: "string \<Rightarrow> Config" where
  "example_config drv =
     \<lparr>Name = ''db'', User = ''dbuser'', Password = [], SSLMode = ''disable'', Driver = drv,
      Host = ''/var/run/postgresql''\<rparr>"

text \<open>Record types and cursors for the examples.\<close>

definition Stat :: "field list" where
  "Stat = [\<lparr>fname = ''Day'', ftyp = TString, exported = True, dbi = Some ''day,date''\<rparr>,
           \<lparr>fname = ''Total'', ftyp = TString, exported = True, dbi = Some ''total,agg''\<rparr>]"

definition stat_rows :: cursor where
  "stat_rows =
     \<lparr>Columns = [''day'', ''total''],
      pending = [Inr [VString ''2024-01-02T03:04:05Z'', VString ''2024-01-02T03:04:05Z'']],
      Err = None\<rparr>"

definition day_only :: cursor where
  "day_only = \<lparr>Columns = [''day''], pending = [Inr [VString ''2024-01-02'']], Err = None\<rparr>"

definition Dup :: "field list" where
  "Dup = [\<lparr>fname = ''Id'', ftyp = TOther ''int'' ''int'' False, exported = True, dbi = Some ''id''\<rparr>,
          \<lparr>fname = ''Key'', ftyp = TString, exported = True, dbi = Some ''id,date''\<rparr>]"

definition Event :: "field list" where
  "Event = [\<lparr>fname = ''At'', ftyp = TString, exported = True, dbi = Some ''at,date''\<rparr>]"

definition event_rows :: cursor where
  "event_rows =
     \<lparr>Columns = [''at''],
      pending = [Inr [VString ''2024-01-02T03:04:05.678+00:00''], Inr [VString ''20240102'']],
      Err = None\<rparr>"

definition accent_rows :: cursor where
  "accent_rows =
     \<lparr>Columns = [''at''],
      pending = [Inr [VString [CHR 0xC3, CHR 0xA9, CHR 0xC3, CHR 0xA9, CHR 0xC3, CHR 0xA9,
                               CHR 0xC3, CHR 0xA9, CHR 0xC3, CHR 0xA9, CHR 0xC3, CHR 0xA9]]],
      Err = None\<rparr>"

definition Clash :: "field list" where
  "Clash = [\<lparr>fname = ''id'', ftyp = TOther ''int'' ''int'' False, exported = False,
             dbi = Some ''id''\<rparr>,
            \<lparr>fname = ''Id'', ftyp = TOther ''int'' ''int'' False, exported = True,
             dbi = Some ''id''\<rparr>]"

definition id_rows :: cursor where
  "id_rows = \<lparr>Columns = [''id''], pending = [Inr [VInt64 7]], Err = None\<rparr>"

definition Person :: "field list" where
  "Person = [\<lparr>fname = ''Name'', ftyp = TString, exported = True, dbi = Some ''name''\<rparr>,
             \<lparr>fname = ''age'', ftyp = TOther ''int'' ''int'' False, exported = False,
              dbi = Some ''age''\<rparr>]"

definition person_rows :: cursor where
  "person_rows =
     \<lparr>Columns = [''name'', ''age''], pending = [Inr [VString ''Ann'', VInt64 21]], Err = None\<rparr>"
section \<open>Evaluation lemmas\<close>

lemma show_nat_numeral:
  "show_nat (numeral k) =
     (if (numeral k :: nat) < 10 then [digit_char (numeral k)]
      else show_nat (numeral k div 10) @ [digit_char (numeral k mod 10)])"
  by (rule show_nat.simps)

lemma show_nat_0: "show_nat 0 = ''0''"
  by (simp add: show_nat.simps digit_char_def)

lemma show_nat_Suc:
  "show_nat (Suc n) =
     (if Suc n < 10 then [digit_char (Suc n)]
      else show_nat (Suc n div 10) @ [digit_char (Suc n mod 10)])"
  by (rule show_nat.simps)

lemma replicate_numeral: "replicate (numeral k) x = x # replicate (pred_numeral k) x"
  by (simp add: numeral_eq_Suc)

lemmas show_nat_eval = show_nat_numeral show_nat_0 show_nat_Suc digit_char_def replicate_numeral

lemmas run_defs = example_backend_def no_rows_def empty_db_def example_config_def
  deferred_end_def called_def postgresPlaceholders_def placeholderRe_Split_def arg_count_error_def
  show_nat_eval Let_def

lemmas unmarshal_defs = unmarshal_def field_tag_def missing_column_def
  scan_record_def coerce_record_def row_bindings_def colLoop_step_def rows_Scan_def new_record_def
  CanSet_def CanAddr_def Addr_CanInterface_def

section \<open>Properties of the placeholder translation\<close>

lemma placeholders_loop_later:
  "i \<noteq> 0 \<Longrightarrow> placeholders_loop i n ret (split_on (CHR ''?'') cur cs) =
     ret @ ''$'' @ show_nat n @ cur @ ordinal_markers (n + 1) cs"
  by (induction cs arbitrary: cur i n ret) simp_all

lemma placeholders_loop_first:
  "placeholders_loop 0 n ret (split_on (CHR ''?'') cur cs) = ret @ cur @ ordinal_markers n cs"
  by (induction cs arbitrary: cur) (simp_all add: placeholders_loop_later)

lemma length_split_on:
  "length (split_on sep cur cs) = Suc (count_list cs sep)"
  by (induction cs arbitrary: cur) simp_all

lemma ordinal_markers_none:
  "CHR ''?'' \<notin> set cs \<Longrightarrow> ordinal_markers i cs = cs"
  by (induction cs) auto

text \<open>
  C5. For every SQL text, \<open>postgresPlaceholders\<close> returns the text in which, reading
  left to right, the \<open>i\<close>-th \<open>?\<close> is replaced by \<open>$i\<close> (numbered from 1) and every
  other byte is kept; a text without \<open>?\<close> is returned unchanged.
\<close>

theorem postgresPlaceholders_ordinal:
  "postgresPlaceholders sql = ordinal_markers 1 sql \<and>
   (CHR ''?'' \<notin> set sql \<longrightarrow> postgresPlaceholders sql = sql)"
proof -
  have eq: "postgresPlaceholders sql = ordinal_markers 1 sql"
  proof (cases "count_list sql (CHR ''?'') = 0")
    case True
    then have "CHR ''?'' \<notin> set sql" by (simp add: count_list_0_iff)
    then show ?thesis
      using True
      by (simp add: postgresPlaceholders_def placeholderRe_Split_def length_split_on
          ordinal_markers_none)
  next
    case False
    then show ?thesis
      by (simp add: postgresPlaceholders_def placeholderRe_Split_def length_split_on
          placeholders_loop_first)
  qed
  then show ?thesis by (simp add: ordinal_markers_none)
qed

theorem postgresPlaceholders_ordinal_witness:
  "postgresPlaceholders ''a=? and b=?'' = ''a=$1 and b=$2'' \<and>
   CHR ''?'' \<notin> set ''select 1'' \<and> postgresPlaceholders ''select 1'' = ''select 1''"
  using postgresPlaceholders_ordinal [of "''a=? and b=?''"]
    postgresPlaceholders_ordinal [of "''select 1''"]
  by (simp add: show_nat_eval)

section \<open>Lemmas about the tag collection and the row loop\<close>

lemma collect_tags_seen:
  "f \<in> set fs \<Longrightarrow> field_tag f = Some t \<Longrightarrow> map_of populate (Column t) \<noteq> None \<Longrightarrow>
   \<exists>col. collect_tags fs populate = Inl (duplicate_error col)"
proof (induction fs arbitrary: populate)
  case Nil
  then show ?case by simp
next
  case (Cons g fs)
  show ?case
  proof (cases "field_tag g")
    case None
    with Cons.prems have "f \<in> set fs" by auto
    with Cons.IH Cons.prems None show ?thesis by simp
  next
    case (Some tg)
    show ?thesis
    proof (cases "map_of populate (Column tg) \<noteq> None")
      case True
      with Some show ?thesis by auto
    next
      case False
      with Cons.prems Some have mem: "f \<in> set fs" by auto
      have "map_of (populate @ [(Column tg, tg)]) (Column t) \<noteq> None"
        using Cons.prems(3) by (auto simp: map_add_def split: option.splits)
      from Cons.IH [OF mem Cons.prems(2) this] Some False show ?thesis by simp
    qed
  qed
qed

lemma collect_tags_duplicate:
  "i < j \<Longrightarrow> j < length fs \<Longrightarrow> field_tag (fs ! i) = Some ti \<Longrightarrow> field_tag (fs ! j) = Some tj \<Longrightarrow>
   Column ti = Column tj \<Longrightarrow> \<exists>col. collect_tags fs populate = Inl (duplicate_error col)"
proof (induction fs arbitrary: i j populate)
  case Nil
  then show ?case by simp
next
  case (Cons g fs)
  from Cons.prems obtain j' where j: "j = Suc j'" "j' < length fs"
    by (cases j) auto
  show ?case
  proof (cases i)
    case 0
    with Cons.prems have g: "field_tag g = Some ti" by simp
    show ?thesis
    proof (cases "map_of populate (Column ti) \<noteq> None")
      case True
      with g show ?thesis by auto
    next
      case False
      have mem: "fs ! j' \<in> set fs" using j by simp
      have tag: "field_tag (fs ! j') = Some tj" using Cons.prems j by simp
      have "map_of (populate @ [(Column ti, ti)]) (Column tj) \<noteq> None"
        using Cons.prems(5) by (auto simp: map_add_def split: option.splits)
      from collect_tags_seen [OF mem tag this] g False show ?thesis by simp
    qed
  next
    case (Suc i')
    with Cons.prems j have ih: "\<And>populate. \<exists>col. collect_tags fs populate = Inl (duplicate_error col)"
      using Cons.IH [of i' j'] by simp
    show ?thesis
    proof (cases "field_tag g")
      case None
      with ih show ?thesis by simp
    next
      case (Some tg)
      with ih show ?thesis by auto
    qed
  qed
qed

lemma collect_tags_keeps:
  "collect_tags fs acc = Inr populate \<Longrightarrow> set acc \<subseteq> set populate"
proof (induction fs arbitrary: acc)
  case Nil
  then show ?case by simp
next
  case (Cons g fs)
  then show ?case
    by (cases "field_tag g") (auto split: if_splits dest!: Cons.IH)
qed

lemma collect_tags_covers:
  "collect_tags fs acc = Inr populate \<Longrightarrow> f \<in> set fs \<Longrightarrow> field_tag f = Some t \<Longrightarrow>
   (Column t, t) \<in> set populate"
proof (induction fs arbitrary: acc)
  case Nil
  then show ?case by simp
next
  case (Cons g fs)
  show ?case
  proof (cases "field_tag g")
    case None
    with Cons show ?thesis by auto
  next
    case (Some tg)
    with Cons.prems have rec: "collect_tags fs (acc @ [(Column tg, tg)]) = Inr populate"
      by (auto split: if_splits)
    show ?thesis
    proof (cases "f = g")
      case True
      with Some Cons.prems have "t = tg" by simp
      with collect_tags_keeps [OF rec] show ?thesis by auto
    next
      case False
      with Cons.prems have "f \<in> set fs" by simp
      from Cons.IH [OF rec this Cons.prems(3)] show ?thesis .
    qed
  qed
qed

lemma colLoop_lists:
  "colLoop populate fs cols bs =
     \<lparr>columnPointers = columnPointers bs @ map (step_dest populate fs) cols,
      dateOptions = dateOptions bs @ concat (map (step_date populate fs) cols),
      aggOptions = aggOptions bs @ concat (map (step_agg populate fs) cols)\<rparr>"
proof (induction cols arbitrary: bs)
  case Nil
  then show ?case by simp
next
  case (Cons col cols)
  show ?case
    by (simp add: Cons.IH colLoop_step_def step_dest_def step_date_def step_agg_def Let_def
        split: option.splits prod.splits)
qed

lemma row_bindings_lists:
  "columnPointers (row_bindings populate fs cols) = map (step_dest populate fs) cols"
  "dateOptions (row_bindings populate fs cols) = concat (map (step_date populate fs) cols)"
  "aggOptions (row_bindings populate fs cols) = concat (map (step_agg populate fs) cols)"
  by (simp_all add: row_bindings_def colLoop_lists)

lemma find_field_Some:
  "find_field fs nm k = Some (j, f) \<Longrightarrow>
   k \<le> j \<and> j - k < length fs \<and> f = fs ! (j - k) \<and> fname f = nm \<and> CanSet f"
proof (induction fs arbitrary: k)
  case Nil
  then show ?case by simp
next
  case (Cons g fs)
  show ?case
  proof (cases "fname g = nm \<and> CanSet g \<and> CanAddr g \<and> Addr_CanInterface g")
    case True
    with Cons.prems show ?thesis by auto
  next
    case False
    with Cons.prems have "find_field fs nm (k + 1) = Some (j, f)" by auto
    from Cons.IH [OF this] show ?thesis
      by (auto simp: Suc_diff_le)
  qed
qed

lemma find_field_0:
  "find_field fs nm 0 = Some (j, f) \<Longrightarrow> j < length fs \<and> f = fs ! j \<and> fname f = nm \<and> CanSet f"
  using find_field_Some [of fs nm 0 j f] by auto

lemma scan_dests_untouched:
  "scan_dests b i cols ds vs x = Inr y \<Longrightarrow> \<forall>ty. ToField j ty \<notin> set ds \<Longrightarrow> y ! j = x ! j"
proof (induction b i cols ds vs x rule: scan_dests.induct)
  case (1 b i c cols ds v vs newe)
  then show ?case by simp
next
  case (2 b i c cols j' ty ds v vs newe)
  then show ?case
    by (auto split: sum.splits)
qed simp_all

lemma scan_dests_length:
  "scan_dests b i cols ds vs x = Inr y \<Longrightarrow> length y = length x"
proof (induction b i cols ds vs x rule: scan_dests.induct)
  case (2 b i c cols j' ty ds v vs newe)
  then show ?case
    by (auto split: sum.splits)
qed simp_all

lemma first10_idem: "first10 (first10 x) = first10 x"
  by (simp add: first10_def)

lemma truncate_fields_length:
  "truncate_fields fs L x = Returns y \<Longrightarrow> length y = length x"
proof (induction L arbitrary: x)
  case Nil
  then show ?case by simp
next
  case (Cons i L)
  then show ?case
    by (auto split: if_splits sum.splits)
qed

lemma truncate_fields_string:
  "truncate_fields fs L x = Returns y \<Longrightarrow> j < length x \<Longrightarrow> ftyp (fs ! j) = TString \<Longrightarrow>
   y ! j = (if j \<in> set L \<and> CanSet (fs ! j) then first10 (x ! j) else x ! j)"
proof (induction L arbitrary: x)
  case Nil
  then show ?case by simp
next
  case (Cons i L)
  show ?case
  proof (cases "i = j")
    case True
    show ?thesis
    proof (cases "CanSet (fs ! j)")
      case False
      with Cons True show ?thesis by simp
    next
      case cs: True
      show ?thesis
      proof (cases "length (Value_String TString (x ! j)) > 10")
        case False
        with Cons.prems True cs have "truncate_fields fs L x = Returns y" by simp
        from Cons.IH [OF this Cons.prems(2,3)] False cs True show ?thesis
          by (simp add: first10_def)
      next
        case long: True
        with Cons.prems True cs
        have "truncate_fields fs L (x[j := first10 (x ! j)]) = Returns y"
          by (simp add: first10_def)
        from Cons.IH [OF this] Cons.prems(2,3) cs True show ?thesis
          by (simp add: first10_idem)
      qed
    qed
  next
    case False
    from Cons.prems obtain x' where x': "truncate_fields fs L x' = Returns y"
      "x' ! j = x ! j" "length x' = length x"
      using False by (auto split: if_splits sum.splits)
    from Cons.IH [OF x'(1)] Cons.prems(2,3) x'(2,3) False show ?thesis by simp
  qed
qed

lemma truncate_fields_unsettable:
  "truncate_fields fs L x = Returns y \<Longrightarrow> \<not> CanSet (fs ! j) \<Longrightarrow> y ! j = x ! j"
proof (induction L arbitrary: x)
  case Nil
  then show ?case by simp
next
  case (Cons i L)
  show ?case
  proof (cases "i = j")
    case True
    with Cons show ?thesis by simp
  next
    case False
    from Cons.prems obtain x' where x': "truncate_fields fs L x' = Returns y" "x' ! j = x ! j"
      using False by (auto split: if_splits sum.splits)
    from Cons.IH [OF x'(1) Cons.prems(2)] x'(2) show ?thesis by simp
  qed
qed


lemma field_tag_Field: "field_tag g = Some p \<Longrightarrow> Field p = fname g"
  by (auto simp: field_tag_def split: option.splits list.splits if_splits)

lemma collect_tags_sound:
  "collect_tags fs acc = Inr populate \<Longrightarrow> (col, p) \<in> set populate \<Longrightarrow>
   (col, p) \<in> set acc \<or> (\<exists>g \<in> set fs. field_tag g = Some p \<and> col = Column p)"
proof (induction fs arbitrary: acc)
  case Nil
  then show ?case by simp
next
  case (Cons g fs)
  show ?case
  proof (cases "field_tag g")
    case None
    with Cons.prems have "collect_tags fs acc = Inr populate" by simp
    from Cons.IH [OF this Cons.prems(2)] show ?thesis by auto
  next
    case (Some tg)
    with Cons.prems have "collect_tags fs (acc @ [(Column tg, tg)]) = Inr populate"
      by (auto split: if_splits)
    from Cons.IH [OF this Cons.prems(2)] Some show ?thesis by auto
  qed
qed

lemma collect_tags_distinct:
  "collect_tags fs acc = Inr populate \<Longrightarrow> distinct (map fst acc) \<Longrightarrow> distinct (map fst populate)"
proof (induction fs arbitrary: acc)
  case Nil
  then show ?case by simp
next
  case (Cons g fs)
  show ?case
  proof (cases "field_tag g")
    case None
    with Cons show ?thesis by simp
  next
    case (Some tg)
    with Cons.prems have rec: "collect_tags fs (acc @ [(Column tg, tg)]) = Inr populate"
      and new: "Column tg \<notin> fst ` set acc"
      by (force split: if_splits)+
    with Cons.prems(2) have "distinct (map fst (acc @ [(Column tg, tg)]))" by simp
    from Cons.IH [OF rec this] show ?thesis .
  qed
qed

lemma count_list_two:
  "i < j \<Longrightarrow> j < length xs \<Longrightarrow> xs ! i = x \<Longrightarrow> xs ! j = x \<Longrightarrow> 2 \<le> count_list xs x"
proof (induction xs arbitrary: i j)
  case Nil
  then show ?case by simp
next
  case (Cons y ys)
  from Cons.prems obtain j' where j: "j = Suc j'" "j' < length ys" by (cases j) auto
  show ?case
  proof (cases i)
    case 0
    with Cons.prems j have "y = x" and "x \<in> set ys" by auto
    then have "count_list ys x \<noteq> 0" by (simp add: count_list_0_iff)
    with \<open>y = x\<close> show ?thesis by simp
  next
    case (Suc i')
    with Cons.prems j have "2 \<le> count_list ys x"
      using Cons.IH [of i' j'] by simp
    then show ?thesis by simp
  qed
qed

lemma unique_names_index:
  assumes "unique_names fs" and "i < length fs" and "j < length fs"
    and "fname (fs ! i) = fname (fs ! j)" and "CanSet (fs ! j)"
  shows "i = j"
proof (rule ccontr)
  assume ne: "i \<noteq> j"
  let ?ns = "map fname fs"
  have one: "count_list ?ns (fname (fs ! j)) = 1"
    using assms(1,3,5) by (simp add: unique_names_def)
  have "2 \<le> count_list ?ns (fname (fs ! j))"
  proof (cases "i < j")
    case True
    then show ?thesis
      using assms by (intro count_list_two [of i j]) simp_all
  next
    case False
    with ne have "j < i" by simp
    then show ?thesis
      using assms by (intro count_list_two [of j i]) simp_all
  qed
  with one show False by simp
qed

lemma unique_names_elem:
  assumes "unique_names fs" and "g \<in> set fs" and "j < length fs"
    and "fname g = fname (fs ! j)" and "CanSet (fs ! j)"
  shows "g = fs ! j"
proof -
  from assms(2) obtain i where "i < length fs" "fs ! i = g"
    by (auto simp: in_set_conv_nth)
  with unique_names_index [OF assms(1) this(1) assms(3)] assms(4,5) show ?thesis by auto
qed

text \<open>The tag under which a column is found is the tag of the field the loop binds.\<close>

lemma bound_field_tag:
  assumes wf: "unique_names fs" and tags: "collect_tags fs [] = Inr populate"
    and look: "map_of populate col = Some p" and found: "find_field fs (Field p) 0 = Some (j, f)"
  shows "j < length fs \<and> f = fs ! j \<and> CanSet (fs ! j) \<and> field_tag (fs ! j) = Some p"
proof -
  from find_field_0 [OF found]
  have j: "j < length fs" "f = fs ! j" "fname f = Field p" "CanSet f" by auto
  from look have "(col, p) \<in> set populate" by (rule map_of_SomeD)
  with collect_tags_sound [OF tags] obtain g where g: "g \<in> set fs" "field_tag g = Some p"
    by auto
  with field_tag_Field have "fname g = fname (fs ! j)" using j by simp
  from unique_names_elem [OF wf g(1) j(1) this] j have "g = fs ! j" by simp
  with g j show ?thesis by simp
qed

lemma step_dest_ToField:
  assumes wf: "unique_names fs" and tags: "collect_tags fs [] = Inr populate"
    and dest: "step_dest populate fs col = ToField j ty"
  shows "\<exists>p. map_of populate col = Some p \<and> j < length fs \<and> CanSet (fs ! j) \<and>
             field_tag (fs ! j) = Some p \<and> find_field fs (Field p) 0 = Some (j, fs ! j)"
proof -
  from dest obtain p f where p: "map_of populate col = Some p"
    "find_field fs (Field p) 0 = Some (j, f)"
    by (auto simp: step_dest_def split: option.splits prod.splits if_splits)
  from bound_field_tag [OF wf tags p] p show ?thesis by auto
qed

lemma date_field_listed:
  assumes wf: "unique_names fs" and tags: "collect_tags fs [] = Inr populate"
    and tag: "field_tag (fs ! j) = Some t" and date: "''date'' \<in> set (Options t)"
    and str: "ftyp (fs ! j) = TString"
    and dest: "ToField j ty \<in> set (columnPointers (row_bindings populate fs cols))"
  shows "j \<in> set (dateOptions (row_bindings populate fs cols)) \<and> CanSet (fs ! j)"
proof -
  from dest obtain col where col: "col \<in> set cols" "step_dest populate fs col = ToField j ty"
    by (auto simp: row_bindings_lists)
  from step_dest_ToField [OF wf tags col(2)] tag
  have p: "map_of populate col = Some t" "CanSet (fs ! j)"
    "find_field fs (Field t) 0 = Some (j, fs ! j)" by auto
  from date have "Options t \<noteq> []" by auto
  with p date str have "step_date populate fs col = [j]"
    by (simp add: step_date_def)
  with col(1) p(2) show ?thesis
    by (force simp: row_bindings_lists)
qed

lemma scan_record_untouched:
  assumes "scan_record b populate fs cols r = Inr scanned"
    and "\<forall>ty. ToField j ty \<notin> set (columnPointers (row_bindings populate fs cols))"
    and "j < length fs"
  shows "scanned ! j = zero_value (ftyp (fs ! j))"
proof -
  from assms(1) obtain vals where
    "scan_dests b 0 cols (columnPointers (row_bindings populate fs cols)) vals (new_record fs) = Inr scanned"
    by (auto simp: scan_record_def rows_Scan_def split: sum.splits if_splits)
  from scan_dests_untouched [OF this assms(2)] assms(3) show ?thesis
    by (simp add: new_record_def)
qed

lemma scan_record_length:
  "scan_record b populate fs cols r = Inr scanned \<Longrightarrow> length scanned = length fs"
  by (auto simp: scan_record_def rows_Scan_def new_record_def split: sum.splits if_splits
      dest!: scan_dests_length)

lemma date_field_row:
  assumes wf: "unique_names fs" and tags: "collect_tags fs [] = Inr populate"
    and scan: "scan_record b populate fs cols r = Inr scanned"
    and coerce: "coerce_record populate fs cols scanned = Returns final"
    and j: "j < length fs" and str: "ftyp (fs ! j) = TString"
    and tag: "field_tag (fs ! j) = Some t" and date: "''date'' \<in> set (Options t)"
  shows "final ! j = first10 (scanned ! j)"
proof -
  let ?bs = "row_bindings populate fs cols"
  from coerce obtain mid where mid: "truncate_fields fs (dateOptions ?bs) scanned = Returns mid"
    and fin: "truncate_fields fs (aggOptions ?bs) mid = Returns final"
    by (auto simp: coerce_record_def split: outcome.splits)
  have len: "j < length scanned" using scan_record_length [OF scan] j by simp
  have len': "j < length mid" using truncate_fields_length [OF mid] len by simp
  have m: "mid ! j = (if j \<in> set (dateOptions ?bs) \<and> CanSet (fs ! j) then first10 (scanned ! j)
                      else scanned ! j)"
    by (rule truncate_fields_string [OF mid len str])
  have f: "final ! j = (if j \<in> set (aggOptions ?bs) \<and> CanSet (fs ! j) then first10 (mid ! j)
                        else mid ! j)"
    by (rule truncate_fields_string [OF fin len' str])
  show ?thesis
  proof (cases "\<exists>ty. ToField j ty \<in> set (columnPointers ?bs)")
    case True
    then obtain ty where "ToField j ty \<in> set (columnPointers ?bs)" ..
    from date_field_listed [OF wf tags tag date str this] m f show ?thesis
      by (simp add: first10_idem)
  next
    case False
    with scan_record_untouched [OF scan _ j] str have "scanned ! j = FString []" by simp
    with m f show ?thesis by (simp add: first10_def)
  qed
qed

lemma um_rows_appends:
  "um_rows b populate fs cols rs ts cs = (out, ts', cs') \<Longrightarrow>
   \<exists>new. ts' = ts @ new \<and> length new \<le> length rs \<and>
     (\<forall>k<length new. \<exists>scanned. scan_record b populate fs cols (rs ! k) = Inr scanned \<and>
        coerce_record populate fs cols scanned = Returns (new ! k))"
proof (induction rs arbitrary: ts cs)
  case Nil
  then show ?case by simp
next
  case (Cons r rs)
  show ?case
  proof (cases "scan_record b populate fs cols r")
    case (Inl err)
    with Cons.prems show ?thesis by simp
  next
    case (Inr scanned)
    show ?thesis
    proof (cases "coerce_record populate fs cols scanned")
      case (Panics p)
      with Cons.prems Inr show ?thesis by simp
    next
      case (Returns n)
      with Cons.prems Inr
      have "um_rows b populate fs cols rs (ts @ [n]) (cs @ [RowsNext, RowsScan]) = (out, ts', cs')"
        by simp
      from Cons.IH [OF this] obtain new where new: "ts' = (ts @ [n]) @ new"
        "length new \<le> length rs"
        "\<forall>k<length new. \<exists>scanned. scan_record b populate fs cols (rs ! k) = Inr scanned \<and>
           coerce_record populate fs cols scanned = Returns (new ! k)"
        by blast
      have "\<forall>k<length (n # new). \<exists>scanned. scan_record b populate fs cols ((r # rs) ! k) = Inr scanned \<and>
           coerce_record populate fs cols scanned = Returns ((n # new) ! k)"
      proof (intro allI impI)
        fix k assume "k < length (n # new)"
        then show "\<exists>scanned. scan_record b populate fs cols ((r # rs) ! k) = Inr scanned \<and>
           coerce_record populate fs cols scanned = Returns ((n # new) ! k)"
          using new(3) Inr Returns by (cases k) auto
      qed
      with new(1,2) show ?thesis
        by (intro exI [of _ "n # new"]) simp
    qed
  qed
qed

lemma unmarshal_appends:
  assumes tags: "collect_tags fs [] = Inr populate"
    and run: "unmarshal b c d txOpts (Some (Ptr (Slice (Ptr (Struct fs))))) (Some ts) SQL args =
                (out, ts', d')"
    and query: "tx_query b (if Driver c = ''postgres'' then postgresPlaceholders SQL else SQL)
                  args (stored d) = Inr (tx, cur)"
  shows "\<exists>new. ts' = Some (ts @ new) \<and> length new \<le> length (pending cur) \<and>
     (\<forall>k<length new. \<exists>scanned.
        scan_record b populate fs (Columns cur) (pending cur ! k) = Inr scanned \<and>
        coerce_record populate fs (Columns cur) scanned = Returns (new ! k))"
proof (cases "begin_tx b txOpts (stored d)")
  case (Some err)
  with tags run show ?thesis
    by (auto simp: unmarshal_def)
next
  case None
  show ?thesis
  proof (cases "missing_column (range_order b) populate (Columns cur)")
    case (Some col)
    with tags run query None show ?thesis
      by (auto simp: unmarshal_def Let_def)
  next
    case no_missing: None
    obtain o1 t1 c1 where um: "um_rows b populate fs (Columns cur) (pending cur) ts
        (calls (called [TxBegin txOpts, TxQuery (if Driver c = ''postgres'' then postgresPlaceholders SQL else SQL) args] d)) = (o1, t1, c1)"
      by (metis prod_cases3)
    with tags run query None no_missing have "ts' = Some t1"
      by (auto simp: unmarshal_def Let_def
          split: outcome.splits option.splits)
    with um_rows_appends [OF um] show ?thesis by simp
  qed
qed

lemma populate_lookup:
  assumes tags: "collect_tags fs [] = Inr populate"
    and mem: "f \<in> set fs" and tag: "field_tag f = Some t"
  shows "map_of populate (Column t) = Some t"
proof -
  have "distinct (map fst populate)"
    using collect_tags_distinct [OF tags] by simp
  moreover have "(Column t, t) \<in> set populate"
    by (rule collect_tags_covers [OF tags mem tag])
  ultimately show ?thesis by simp
qed

lemma unsettable_never_bound:
  assumes wf: "unique_names fs" and tags: "collect_tags fs [] = Inr populate"
    and unset: "\<not> CanSet (fs ! j)"
  shows "step_dest populate fs col \<noteq> ToField j ty"
  using step_dest_ToField [OF wf tags, of col j ty] unset by auto

lemma unsettable_column_scratch:
  assumes wf: "unique_names fs" and tags: "collect_tags fs [] = Inr populate"
    and j: "j < length fs" and tag: "field_tag (fs ! j) = Some t"
    and unset: "\<not> CanSet (fs ! j)"
  shows "step_dest populate fs (Column t) = ToScratch"
proof (cases "step_dest populate fs (Column t)")
  case ToScratch
  then show ?thesis .
next
  case (ToField k ty)
  from step_dest_ToField [OF wf tags this] obtain p where
    p: "map_of populate (Column t) = Some p" "k < length fs" "CanSet (fs ! k)"
       "field_tag (fs ! k) = Some p" by auto
  from populate_lookup [OF tags _ tag] j have "map_of populate (Column t) = Some t" by simp
  with p have "field_tag (fs ! k) = Some t" by simp
  with tag have "fname (fs ! j) = fname (fs ! k)"
    using field_tag_Field [of "fs ! j" t] field_tag_Field [of "fs ! k" t] by simp
  from unique_names_index [OF wf j p(2) this p(3)] p(3) unset show ?thesis by simp
qed

lemma unsettable_field_row:
  assumes wf: "unique_names fs" and tags: "collect_tags fs [] = Inr populate"
    and j: "j < length fs" and unset: "\<not> CanSet (fs ! j)"
    and scan: "scan_record b populate fs cols r = Inr scanned"
    and coerce: "coerce_record populate fs cols scanned = Returns final"
  shows "final ! j = zero_value (ftyp (fs ! j))"
proof -
  let ?bs = "row_bindings populate fs cols"
  from coerce obtain mid where mid: "truncate_fields fs (dateOptions ?bs) scanned = Returns mid"
    and fin: "truncate_fields fs (aggOptions ?bs) mid = Returns final"
    by (auto simp: coerce_record_def split: outcome.splits)
  have "\<forall>ty. ToField j ty \<notin> set (columnPointers ?bs)"
  proof (intro allI notI)
    fix ty
    assume "ToField j ty \<in> set (columnPointers ?bs)"
    then obtain col where "step_dest populate fs col = ToField j ty"
      by (auto simp: row_bindings_lists)
    with unsettable_never_bound [OF wf tags unset] show False by simp
  qed
  from scan_record_untouched [OF scan this j]
  have "scanned ! j = zero_value (ftyp (fs ! j))" .
  with truncate_fields_unsettable [OF mid unset] truncate_fields_unsettable [OF fin unset]
  show ?thesis by simp
qed

lemma no_settable_tag_steps:
  assumes wf: "unique_names fs" and tags: "collect_tags fs [] = Inr populate"
    and none: "\<forall>f \<in> set fs. field_tag f \<noteq> None \<longrightarrow> \<not> CanSet f"
  shows "step_dest populate fs col = ToScratch"
    and "step_date populate fs col = []"
    and "step_agg populate fs col = []"
proof -
  have nf: "find_field fs (Field p) 0 = None" if "map_of populate col = Some p" for p
  proof (cases "find_field fs (Field p) 0")
    case None
    then show ?thesis .
  next
    case (Some jf)
    obtain k f where "jf = (k, f)" by (cases jf)
    with bound_field_tag [OF wf tags that] Some
    have "k < length fs" "CanSet (fs ! k)" "field_tag (fs ! k) = Some p" by auto
    with none show ?thesis by (metis nth_mem option.distinct(1))
  qed
  show "step_dest populate fs col = ToScratch"
    by (auto simp: step_dest_def nf split: option.splits)
  show "step_date populate fs col = []"
    by (auto simp: step_date_def nf split: option.splits)
  show "step_agg populate fs col = []"
    by (auto simp: step_agg_def nf split: option.splits)
qed

lemma scan_dests_scratch:
  "\<forall>ds' \<in> set ds. ds' = ToScratch \<Longrightarrow> scan_dests b i cols ds vs x = Inr x"
  by (induction b i cols ds vs x rule: scan_dests.induct) simp_all

lemma no_settable_tag_rows:
  assumes wf: "unique_names fs" and tags: "collect_tags fs [] = Inr populate"
    and none: "\<forall>f \<in> set fs. field_tag f \<noteq> None \<longrightarrow> \<not> CanSet f"
    and rows: "\<forall>r \<in> set rs. \<exists>vals. r = Inr vals \<and> length vals = length cols"
  shows "\<exists>cs'. um_rows b populate fs cols rs ts cs =
           (Returns None, ts @ replicate (length rs) (new_record fs), cs')"
  using rows
proof (induction rs arbitrary: ts cs)
  case Nil
  then show ?case by simp
next
  case (Cons r rs)
  from Cons.prems obtain vals where r: "r = Inr vals" "length vals = length cols" by auto
  have bs: "row_bindings populate fs cols =
      \<lparr>columnPointers = map (\<lambda>c. ToScratch) cols, dateOptions = [], aggOptions = []\<rparr>"
    by (simp add: row_bindings_def colLoop_lists no_settable_tag_steps [OF wf tags none])
  have scan: "scan_record b populate fs cols r = Inr (new_record fs)"
    using r by (simp add: scan_record_def rows_Scan_def bs scan_dests_scratch)
  have coerce: "coerce_record populate fs cols (new_record fs) = Returns (new_record fs)"
    by (simp add: coerce_record_def bs)
  from Cons.prems have "\<forall>r \<in> set rs. \<exists>vals. r = Inr vals \<and> length vals = length cols" by simp
  from Cons.IH [OF this, of "ts @ [new_record fs]" "cs @ [RowsNext, RowsScan]"]
  show ?case
    by (auto simp: scan coerce replicate_app_Cons_same)
qed

lemma collect_tags_error:
  "collect_tags fs acc = Inl e \<Longrightarrow>
   \<exists>j<length fs. \<exists>t. field_tag (fs ! j) = Some t \<and> e = duplicate_error (Column t) \<and>
     (map_of acc (Column t) \<noteq> None \<or>
      (\<exists>i<j. \<exists>ti. field_tag (fs ! i) = Some ti \<and> Column ti = Column t))"
proof (induction fs arbitrary: acc)
  case Nil
  then show ?case by simp
next
  case (Cons g fs)
  show ?case
  proof (cases "field_tag g")
    case None
    with Cons.prems have "collect_tags fs acc = Inl e" by simp
    from Cons.IH [OF this] obtain j t where j: "j < length fs" "field_tag (fs ! j) = Some t"
      "e = duplicate_error (Column t)"
      "map_of acc (Column t) \<noteq> None \<or>
        (\<exists>i<j. \<exists>ti. field_tag (fs ! i) = Some ti \<and> Column ti = Column t)"
      by blast
    from j(4) have "map_of acc (Column t) \<noteq> None \<or>
        (\<exists>i<Suc j. \<exists>ti. field_tag ((g # fs) ! i) = Some ti \<and> Column ti = Column t)"
    proof
      assume "map_of acc (Column t) \<noteq> None"
      then show ?thesis by simp
    next
      assume "\<exists>i<j. \<exists>ti. field_tag (fs ! i) = Some ti \<and> Column ti = Column t"
      then obtain i ti where "i < j" "field_tag (fs ! i) = Some ti" "Column ti = Column t" by blast
      then have "Suc i < Suc j \<and> field_tag ((g # fs) ! Suc i) = Some ti \<and> Column ti = Column t"
        by simp
      then show ?thesis by blast
    qed
    with j(1,2,3) show ?thesis
      by (intro exI [of _ "Suc j"]) auto
  next
    case (Some tg)
    show ?thesis
    proof (cases "map_of acc (Column tg) \<noteq> None")
      case True
      with Cons.prems Some have "e = duplicate_error (Column tg)" by simp
      with Some True show ?thesis
        by (intro exI [of _ 0]) auto
    next
      case False
      with Cons.prems Some have "collect_tags fs (acc @ [(Column tg, tg)]) = Inl e" by simp
      from Cons.IH [OF this] obtain j t where j: "j < length fs" "field_tag (fs ! j) = Some t"
        "e = duplicate_error (Column t)"
        "map_of (acc @ [(Column tg, tg)]) (Column t) \<noteq> None \<or>
          (\<exists>i<j. \<exists>ti. field_tag (fs ! i) = Some ti \<and> Column ti = Column t)"
        by blast
      from j(4) have "map_of acc (Column t) \<noteq> None \<or>
          (\<exists>i<Suc j. \<exists>ti. field_tag ((g # fs) ! i) = Some ti \<and> Column ti = Column t)"
      proof
        assume m: "map_of (acc @ [(Column tg, tg)]) (Column t) \<noteq> None"
        show ?thesis
        proof (cases "map_of acc (Column t) \<noteq> None")
          case True
          then show ?thesis by simp
        next
          case False
          with m have "Column tg = Column t"
            by (auto simp: map_add_def split: option.splits if_splits)
          with Some have "(0::nat) < Suc j \<and> field_tag ((g # fs) ! 0) = Some tg \<and> Column tg = Column t"
            by simp
          then show ?thesis by blast
        qed
      next
        assume "\<exists>i<j. \<exists>ti. field_tag (fs ! i) = Some ti \<and> Column ti = Column t"
        then obtain i ti where "i < j" "field_tag (fs ! i) = Some ti" "Column ti = Column t" by blast
        then have "Suc i < Suc j \<and> field_tag ((g # fs) ! Suc i) = Some ti \<and> Column ti = Column t"
          by simp
        then show ?thesis by blast
      qed
      with j(1,2,3) show ?thesis
        by (intro exI [of _ "Suc j"]) auto
    qed
  qed
qed

text \<open>
  A field that cannot be set takes no part in the call: with its tag or without it the
  bindings, the records and the outcome are the same, provided the result has the column.
\<close>

lemma field_tag_untag: "field_tag (f\<lparr>dbi := None\<rparr>) = None"
  by (simp add: field_tag_def)

lemma collect_tags_Cons_Some:
  assumes "collect_tags (g # fs) acc = Inr populate" and "field_tag g = Some tg"
  shows "Column tg \<notin> fst ` set acc" and "map_of acc (Column tg) = None"
    and "collect_tags fs (acc @ [(Column tg, tg)]) = Inr populate"
proof -
  show m: "map_of acc (Column tg) = None"
  proof (cases "map_of acc (Column tg)")
    case None
    then show ?thesis .
  next
    case (Some p)
    with assms show ?thesis by simp
  qed
  then show "Column tg \<notin> fst ` set acc" by (simp add: map_of_eq_None_iff)
  from assms m show "collect_tags fs (acc @ [(Column tg, tg)]) = Inr populate" by simp
qed

lemma collect_tags_extends:
  "collect_tags fs acc = Inr populate \<Longrightarrow>
   \<exists>new. populate = acc @ new \<and>
     (\<forall>acc'. fst ` set acc' \<subseteq> fst ` set acc \<longrightarrow> collect_tags fs acc' = Inr (acc' @ new))"
proof (induction fs arbitrary: acc)
  case Nil
  then show ?case by simp
next
  case (Cons g fs)
  show ?case
  proof (cases "field_tag g")
    case None
    with Cons.prems have "collect_tags fs acc = Inr populate" by simp
    from Cons.IH [OF this] None show ?thesis by simp
  next
    case (Some tg)
    note cs = collect_tags_Cons_Some [OF Cons.prems Some]
    note fresh = cs(1) and rec = cs(3)
    from Cons.IH [OF rec] obtain new where new: "populate = (acc @ [(Column tg, tg)]) @ new"
      "\<forall>acc'. fst ` set acc' \<subseteq> fst ` set (acc @ [(Column tg, tg)]) \<longrightarrow>
         collect_tags fs acc' = Inr (acc' @ new)"
      by blast
    have "collect_tags (g # fs) acc' = Inr (acc' @ (Column tg, tg) # new)"
      if sub: "fst ` set acc' \<subseteq> fst ` set acc" for acc'
    proof -
      from fresh sub have "Column tg \<notin> fst ` set acc'" by blast
      then have f': "map_of acc' (Column tg) = None" by (simp add: map_of_eq_None_iff)
      from sub have "fst ` set (acc' @ [(Column tg, tg)]) \<subseteq> fst ` set (acc @ [(Column tg, tg)])"
        by auto
      with new(2) have "collect_tags fs (acc' @ [(Column tg, tg)]) = Inr ((acc' @ [(Column tg, tg)]) @ new)"
        by blast
      with Some f' show ?thesis by simp
    qed
    with new(1) show ?thesis
      by (intro exI [of _ "(Column tg, tg) # new"]) simp
  qed
qed

lemma collect_tags_untagged:
  "collect_tags fs acc = Inr populate \<Longrightarrow> distinct (map fst acc) \<Longrightarrow> j < length fs \<Longrightarrow>
   field_tag (fs ! j) = Some t \<Longrightarrow>
   collect_tags (untagged fs j) acc = Inr (filter (\<lambda>kv. fst kv \<noteq> Column t) populate) \<and>
   Column t \<notin> fst ` set acc"
proof (induction fs arbitrary: j acc)
  case Nil
  then show ?case by simp
next
  case (Cons g fs)
  show ?case
  proof (cases j)
    case 0
    with Cons.prems have g: "field_tag g = Some t" by simp
    note cs = collect_tags_Cons_Some [OF Cons.prems(1) g]
    note notin = cs(1) and rec = cs(3)
    from collect_tags_extends [OF rec] obtain new where new: "populate = (acc @ [(Column t, t)]) @ new"
      "\<forall>acc'. fst ` set acc' \<subseteq> fst ` set (acc @ [(Column t, t)]) \<longrightarrow>
         collect_tags fs acc' = Inr (acc' @ new)"
      by blast
    from new(2) have res: "collect_tags fs acc = Inr (acc @ new)" by auto
    from Cons.prems(2) notin have "distinct (map fst (acc @ [(Column t, t)]))" by simp
    from collect_tags_distinct [OF rec this] new(1)
    have keys_new: "Column t \<notin> fst ` set new" by auto
    have fa: "filter (\<lambda>kv. fst kv \<noteq> Column t) acc = acc"
      using notin by (intro filter_True) force
    have fn: "filter (\<lambda>kv. fst kv \<noteq> Column t) new = new"
      using keys_new by (intro filter_True) force
    have "filter (\<lambda>kv. fst kv \<noteq> Column t) populate = acc @ new"
      using new(1) fa fn by simp
    with res 0 g have "collect_tags (untagged (g # fs) j) acc =
        Inr (filter (\<lambda>kv. fst kv \<noteq> Column t) populate)"
      by (simp add: untagged_def field_tag_untag)
    with notin show ?thesis by (intro conjI)
  next
    case (Suc j')
    with Cons.prems have j': "j' < length fs" "field_tag (fs ! j') = Some t" by simp_all
    have u: "untagged (g # fs) j = g # untagged fs j'"
      using Suc by (simp add: untagged_def)
    show ?thesis
    proof (cases "field_tag g")
      case None
      with Cons.prems have "collect_tags fs acc = Inr populate" by simp
      from Cons.IH [OF this Cons.prems(2) j'] None show ?thesis by (simp add: u)
    next
      case (Some tg)
      note cs = collect_tags_Cons_Some [OF Cons.prems(1) Some]
      note fresh = cs(1) and m = cs(2) and rec = cs(3)
      from fresh Cons.prems(2) have "distinct (map fst (acc @ [(Column tg, tg)]))" by simp
      from Cons.IH [OF rec this j'] Some m show ?thesis by (auto simp: u)
    qed
  qed
qed


lemma length_untagged: "length (untagged fs j) = length fs"
  by (simp add: untagged_def)

lemma untagged_nth:
  "j < length fs \<Longrightarrow> CanSet (untagged fs j ! i) = CanSet (fs ! i)"
  "j < length fs \<Longrightarrow> ftyp (untagged fs j ! i) = ftyp (fs ! i)"
  "j < length fs \<Longrightarrow> fname (untagged fs j ! i) = fname (fs ! i)"
  by (cases "i = j"; simp add: untagged_def CanSet_def)+

lemma find_field_untagged:
  "\<not> CanSet (fs ! j) \<Longrightarrow> j < length fs \<Longrightarrow> find_field (untagged fs j) nm k = find_field fs nm k"
proof (induction fs arbitrary: j k)
  case Nil
  then show ?case by simp
next
  case (Cons g fs)
  show ?case
  proof (cases j)
    case 0
    with Cons.prems show ?thesis
      by (simp add: untagged_def CanSet_def)
  next
    case (Suc j')
    with Cons.prems have "\<not> CanSet (fs ! j')" "j' < length fs" by simp_all
    from Cons.IH [OF this] have "find_field (untagged fs j') nm (k + 1) = find_field fs nm (k + 1)" .
    moreover have "untagged (g # fs) j = g # untagged fs j'"
      using Suc by (simp add: untagged_def)
    ultimately show ?thesis by simp
  qed
qed

lemma unsettable_not_found:
  assumes wf: "unique_names fs" and j: "j < length fs" and unset: "\<not> CanSet (fs ! j)"
  shows "find_field fs (fname (fs ! j)) 0 = None"
proof (cases "find_field fs (fname (fs ! j)) 0")
  case None
  then show ?thesis .
next
  case (Some r)
  obtain i f where r: "r = (i, f)" by (cases r)
  from find_field_0 [OF Some [unfolded r]]
  have i: "i < length fs" "f = fs ! i" "fname f = fname (fs ! j)" "CanSet f" by auto
  have a: "fname (fs ! j) = fname (fs ! i)"
    using i(3) [unfolded i(2)] by (rule sym)
  have c: "CanSet (fs ! i)"
    using i(4) unfolding i(2) .
  from unique_names_index [OF wf j i(1) a c] have "j = i" .
  with unset c show ?thesis by blast
qed

lemma map_of_filter_key:
  "map_of (filter (\<lambda>kv. fst kv \<noteq> c) xs) col = (if col = c then None else map_of xs col)"
  by (induction xs) auto

lemma steps_untagged:
  assumes wf: "unique_names fs" and tags: "collect_tags fs [] = Inr populate"
    and j: "j < length fs" and tag: "field_tag (fs ! j) = Some t"
    and unset: "\<not> CanSet (fs ! j)"
  shows "step_dest (filter (\<lambda>kv. fst kv \<noteq> Column t) populate) (untagged fs j) col =
           step_dest populate fs col"
    and "step_date (filter (\<lambda>kv. fst kv \<noteq> Column t) populate) (untagged fs j) col =
           step_date populate fs col"
    and "step_agg (filter (\<lambda>kv. fst kv \<noteq> Column t) populate) (untagged fs j) col =
           step_agg populate fs col"
proof -
  from j have mem: "fs ! j \<in> set fs" by simp
  have look: "map_of populate (Column t) = Some t"
    by (rule populate_lookup [OF tags mem tag])
  have "Field t = fname (fs ! j)"
    using field_tag_Field [OF tag] by simp
  with unsettable_not_found [OF wf j unset] have nf: "find_field fs (Field t) 0 = None" by simp
  note ff = find_field_untagged [OF unset j]
  show "step_dest (filter (\<lambda>kv. fst kv \<noteq> Column t) populate) (untagged fs j) col =
           step_dest populate fs col"
    by (simp add: step_dest_def map_of_filter_key ff look nf cong: option.case_cong)
  show "step_date (filter (\<lambda>kv. fst kv \<noteq> Column t) populate) (untagged fs j) col =
           step_date populate fs col"
    by (simp add: step_date_def map_of_filter_key ff look nf cong: option.case_cong)
  show "step_agg (filter (\<lambda>kv. fst kv \<noteq> Column t) populate) (untagged fs j) col =
           step_agg populate fs col"
    by (simp add: step_agg_def map_of_filter_key ff look nf cong: option.case_cong)
qed

lemma row_bindings_untagged:
  assumes wf: "unique_names fs" and tags: "collect_tags fs [] = Inr populate"
    and j: "j < length fs" and tag: "field_tag (fs ! j) = Some t"
    and unset: "\<not> CanSet (fs ! j)"
  shows "row_bindings (filter (\<lambda>kv. fst kv \<noteq> Column t) populate) (untagged fs j) cols =
           row_bindings populate fs cols"
proof -
  note st = steps_untagged [OF wf tags j tag unset]
  have "step_dest (filter (\<lambda>kv. fst kv \<noteq> Column t) populate) (untagged fs j) =
          step_dest populate fs"
    and "step_date (filter (\<lambda>kv. fst kv \<noteq> Column t) populate) (untagged fs j) =
          step_date populate fs"
    and "step_agg (filter (\<lambda>kv. fst kv \<noteq> Column t) populate) (untagged fs j) =
          step_agg populate fs"
    by (rule ext, rule st)+
  then show ?thesis
    by (simp add: row_bindings_def colLoop_lists)
qed

lemma new_record_untagged:
  "j < length fs \<Longrightarrow> new_record (untagged fs j) = new_record fs"
  by (rule nth_equalityI) (simp_all add: new_record_def untagged_nth length_untagged)

lemma truncate_fields_untagged:
  "j < length fs \<Longrightarrow> truncate_fields (untagged fs j) js newe = truncate_fields fs js newe"
  by (induction js arbitrary: newe) (simp_all add: untagged_nth cong: sum.case_cong)

lemma missing_column_untagged:
  "c \<in> set cols \<Longrightarrow>
   missing_column rank (filter (\<lambda>kv. fst kv \<noteq> c) populate) cols =
   missing_column rank populate cols"
proof -
  have "find (\<lambda>x. x \<notin> set cols) (filter (\<lambda>x. x \<noteq> c) xs) = find (\<lambda>x. x \<notin> set cols) xs"
    if "c \<in> set cols" for xs
    using that by (induction xs) auto
  moreover have "map fst (filter (\<lambda>kv. fst kv \<noteq> c) populate) = filter (\<lambda>x. x \<noteq> c) (map fst populate)"
    by (simp add: filter_map comp_def)
  moreover assume "c \<in> set cols"
  ultimately show ?thesis
    by (simp add: missing_column_def filter_sort [symmetric])
qed

lemma um_rows_untagged:
  assumes wf: "unique_names fs" and tags: "collect_tags fs [] = Inr populate"
    and j: "j < length fs" and tag: "field_tag (fs ! j) = Some t"
    and unset: "\<not> CanSet (fs ! j)"
  shows "um_rows b (filter (\<lambda>kv. fst kv \<noteq> Column t) populate) (untagged fs j) cols rs ts cs =
           um_rows b populate fs cols rs ts cs"
proof (induction rs arbitrary: ts cs)
  case Nil
  then show ?case by simp
next
  case (Cons r rs)
  note rb = row_bindings_untagged [OF wf tags j tag unset]
  have s: "scan_record b (filter (\<lambda>kv. fst kv \<noteq> Column t) populate) (untagged fs j) cols r =
             scan_record b populate fs cols r"
    by (simp add: scan_record_def rb new_record_untagged [OF j])
  have k: "coerce_record (filter (\<lambda>kv. fst kv \<noteq> Column t) populate) (untagged fs j) cols newe =
             coerce_record populate fs cols newe" for newe
    by (simp add: coerce_record_def rb truncate_fields_untagged [OF j] cong: outcome.case_cong)
  show ?case
    by (simp add: s k Cons.IH cong: sum.case_cong outcome.case_cong)
qed

lemma unmarshal_untagged:
  assumes wf: "unique_names fs" and tags: "collect_tags fs [] = Inr populate"
    and j: "j < length fs" and tag: "field_tag (fs ! j) = Some t"
    and unset: "\<not> CanSet (fs ! j)"
    and query: "tx_query b (if Driver c = ''postgres'' then postgresPlaceholders SQL else SQL)
                  args (stored d) = Inr (tx, cur)"
    and col: "Column t \<in> set (Columns cur)"
  shows "unmarshal b c d txOpts (Some (Ptr (Slice (Ptr (Struct fs))))) target SQL args =
         unmarshal b c d txOpts (Some (Ptr (Slice (Ptr (Struct (untagged fs j)))))) target SQL args"
proof -
  from collect_tags_untagged [OF tags _ j tag]
  have tags': "collect_tags (untagged fs j) [] = Inr (filter (\<lambda>kv. fst kv \<noteq> Column t) populate)"
    by simp
  note um = um_rows_untagged [OF wf tags j tag unset]
  note mc = missing_column_untagged [OF col]
  show ?thesis
    by (simp add: unmarshal_def tags tags' query um mc Let_def
          split del: if_split cong: option.case_cong)
qed

text \<open>Rows that all build: the loop ends without error, one record per row.\<close>

lemma built_record_Some:
  "scan_record b populate fs cols r = Inr scanned \<Longrightarrow>
   coerce_record populate fs cols scanned = Returns n \<Longrightarrow>
   built_record b populate fs cols r = Some n"
  by (simp add: built_record_def)

lemma um_rows_built:
  "\<forall>r \<in> set rs. built_record b populate fs cols r \<noteq> None \<Longrightarrow>
   \<exists>new cs'. um_rows b populate fs cols rs ts cs = (Returns None, ts @ new, cs') \<and>
     map (built_record b populate fs cols) rs = map Some new"
proof (induction rs arbitrary: ts cs)
  case Nil
  then show ?case by simp
next
  case (Cons r rs)
  from Cons.prems obtain n where n: "built_record b populate fs cols r = Some n" by auto
  then obtain newe where s: "scan_record b populate fs cols r = Inr newe"
    "coerce_record populate fs cols newe = Returns n"
    by (auto simp: built_record_def split: sum.splits outcome.splits)
  from Cons.prems have "\<forall>r \<in> set rs. built_record b populate fs cols r \<noteq> None" by simp
  from Cons.IH [OF this, of "ts @ [n]" "cs @ [RowsNext, RowsScan]"]
  obtain new cs' where new:
    "um_rows b populate fs cols rs (ts @ [n]) (cs @ [RowsNext, RowsScan]) =
       (Returns None, (ts @ [n]) @ new, cs')"
    "map (built_record b populate fs cols) rs = map Some new"
    by blast
  from s new(1) have "um_rows b populate fs cols (r # rs) ts cs = (Returns None, ts @ (n # new), cs')"
    by simp
  moreover from n new(2)
  have "map (built_record b populate fs cols) (r # rs) = map Some (n # new)" by simp
  ultimately show ?case by blast
qed

section \<open>Properties of Unmarshal\<close>

text \<open>
  C7. When two fields of the record type claim the same column, \<open>unmarshal\<close> fails
  and the database and the target are as they were: no transaction was begun and no query
  was run. With a target pointer that is not nil the error is
  \<open>dbi: column ... used on multiple fields\<close>, naming a column that two fields claim;
  with a nil target pointer it is \<open>dbi: unable to set/change slice\<close>, because that check
  comes first.
\<close>

theorem unmarshal_duplicate_column:
  assumes "i < j" and "j < length fs"
    and "field_tag (fs ! i) = Some ti" and "field_tag (fs ! j) = Some tj"
    and "Column ti = Column tj"
  shows "(\<exists>col i' j' ti' tj'.
           unmarshal b c d txOpts (Some (Ptr (Slice (Ptr (Struct fs))))) (Some targetSlice) SQL args =
             (Returns (Some (duplicate_error col)), Some targetSlice, d) \<and>
           i' < j' \<and> j' < length fs \<and>
           field_tag (fs ! i') = Some ti' \<and> Column ti' = col \<and>
           field_tag (fs ! j') = Some tj' \<and> Column tj' = col) \<and>
         unmarshal b c d txOpts (Some (Ptr (Slice (Ptr (Struct fs))))) None SQL args =
           (Returns (Some ''dbi: unable to set/change slice''), None, d)"
proof (intro conjI)
  from collect_tags_duplicate [OF assms, of "[]"]
  obtain col0 where e: "collect_tags fs [] = Inl (duplicate_error col0)" by blast
  from collect_tags_error [OF e] obtain j' t i' ti' where
    "j' < length fs" "field_tag (fs ! j') = Some t" "duplicate_error col0 = duplicate_error (Column t)"
    "i' < j'" "field_tag (fs ! i') = Some ti'" "Column ti' = Column t"
    by auto
  moreover from e
  have "unmarshal b c d txOpts (Some (Ptr (Slice (Ptr (Struct fs))))) (Some targetSlice) SQL args =
           (Returns (Some (duplicate_error col0)), Some targetSlice, d)"
    by (simp add: unmarshal_def)
  ultimately show "\<exists>col i' j' ti' tj'.
           unmarshal b c d txOpts (Some (Ptr (Slice (Ptr (Struct fs))))) (Some targetSlice) SQL args =
             (Returns (Some (duplicate_error col)), Some targetSlice, d) \<and>
           i' < j' \<and> j' < length fs \<and>
           field_tag (fs ! i') = Some ti' \<and> Column ti' = col \<and>
           field_tag (fs ! j') = Some tj' \<and> Column tj' = col"
    by metis
next
  show "unmarshal b c d txOpts (Some (Ptr (Slice (Ptr (Struct fs))))) None SQL args =
           (Returns (Some ''dbi: unable to set/change slice''), None, d)"
    by (simp add: unmarshal_def)
qed

theorem unmarshal_duplicate_column_witness:
  "(0::nat) < 1 \<and> 1 < length Dup \<and>
   field_tag (Dup ! 0) = Some \<lparr>Field = ''Id'', Column = ''id'', Options = []\<rparr> \<and>
   field_tag (Dup ! 1) = Some \<lparr>Field = ''Key'', Column = ''id'', Options = [''date'']\<rparr> \<and>
   Column \<lparr>Field = ''Id'', Column = ''id'', Options = []\<rparr> =
     Column \<lparr>Field = ''Key'', Column = ''id'', Options = [''date'']\<rparr> \<and>
   (\<exists>col i' j' ti' tj'.
      unmarshal (example_backend 0 no_rows None) (example_config ''postgres'') empty_db None
        (Some (Ptr (Slice (Ptr (Struct Dup))))) (Some []) ''select id from t'' [] =
        (Returns (Some (duplicate_error col)), Some [], empty_db) \<and>
      i' < j' \<and> j' < length Dup \<and>
      field_tag (Dup ! i') = Some ti' \<and> Column ti' = col \<and>
      field_tag (Dup ! j') = Some tj' \<and> Column tj' = col) \<and>
   unmarshal (example_backend 0 no_rows None) (example_config ''postgres'') empty_db None
     (Some (Ptr (Slice (Ptr (Struct Dup))))) None ''select id from t'' [] =
     (Returns (Some ''dbi: unable to set/change slice''), None, empty_db) \<and>
   unmarshal (example_backend 0 no_rows None) (example_config ''postgres'') empty_db None
     (Some (Ptr (Slice (Ptr (Struct Dup))))) (Some []) ''select id from t'' [] =
     (Returns (Some ''dbi: column id used on multiple fields''), Some [], \<lparr>stored = [], calls = []\<rparr>)"
proof -
  have h1: "(0::nat) < 1" by simp
  have h2: "1 < length Dup" by (simp add: Dup_def)
  have h3: "field_tag (Dup ! 0) = Some \<lparr>Field = ''Id'', Column = ''id'', Options = []\<rparr>"
    by (simp add: Dup_def field_tag_def)
  have h4: "field_tag (Dup ! 1) = Some \<lparr>Field = ''Key'', Column = ''id'', Options = [''date'']\<rparr>"
    by (simp add: Dup_def field_tag_def)
  have h5: "Column \<lparr>Field = ''Id'', Column = ''id'', Options = []\<rparr> =
     Column \<lparr>Field = ''Key'', Column = ''id'', Options = [''date'']\<rparr>" by simp
  note c = unmarshal_duplicate_column [OF h1 h2 h3 h4 h5,
      of "example_backend 0 no_rows None" "example_config ''postgres''" empty_db None "[]"
         "''select id from t''" "[]"]
  note c1 = c [THEN conjunct1] and c2 = c [THEN conjunct2]
  have run: "unmarshal (example_backend 0 no_rows None) (example_config ''postgres'') empty_db None
     (Some (Ptr (Slice (Ptr (Struct Dup))))) (Some []) ''select id from t'' [] =
     (Returns (Some ''dbi: column id used on multiple fields''), Some [], \<lparr>stored = [], calls = []\<rparr>)"
    by (simp add: unmarshal_defs run_defs Dup_def duplicate_error_def)
  show ?thesis
    by (intro conjI h1 h2 h3 h4 h5 c1 c2 run)
qed

text \<open>
  C7 as the specification words it (a duplicate-column error on every call) fails at a
  nil target pointer of the right type: the two fields of \<open>Dup\<close> claim the column
  \<open>id\<close>, and the error is the one of the check that the slice can be set.
\<close>

theorem unmarshal_duplicate_nil_target_counterexample:
  "field_tag (Dup ! 0) = Some \<lparr>Field = ''Id'', Column = ''id'', Options = []\<rparr> \<and>
   field_tag (Dup ! 1) = Some \<lparr>Field = ''Key'', Column = ''id'', Options = [''date'']\<rparr> \<and>
   unmarshal (example_backend 0 no_rows None) (example_config ''postgres'') empty_db None
     (Some (Ptr (Slice (Ptr (Struct Dup))))) None ''select id from t'' [] =
     (Returns (Some ''dbi: unable to set/change slice''), None, empty_db) \<and>
   ''dbi: unable to set/change slice'' \<noteq> duplicate_error ''id''"
  by (simp add: unmarshal_def Dup_def field_tag_def duplicate_error_def)

text \<open>
  C8. When a field claims a column that is not among the columns of the query's result,
  \<open>unmarshal\<close> returns an error, the target is as it was, and the calls made
  contain neither \<open>rows.Next\<close> nor \<open>rows.Scan\<close>: no row was read.
\<close>

theorem unmarshal_missing_column:
  assumes "f \<in> set fs" and "field_tag f = Some t"
    and "\<forall>tx cur. tx_query b (if Driver c = ''postgres'' then postgresPlaceholders SQL else SQL)
            args (stored d) = Inr (tx, cur) \<longrightarrow> Column t \<notin> set (Columns cur)"
  shows "\<exists>e d' new. unmarshal b c d txOpts (Some (Ptr (Slice (Ptr (Struct fs))))) target SQL args =
           (Returns (Some e), target, d') \<and>
         calls d' = calls d @ new \<and> RowsNext \<notin> set new \<and> RowsScan \<notin> set new"
proof (cases target)
  case nil: None
  have "unmarshal b c d txOpts (Some (Ptr (Slice (Ptr (Struct fs))))) target SQL args =
           (Returns (Some ''dbi: unable to set/change slice''), target, d)"
    by (simp add: unmarshal_def nil)
  moreover have "calls d = calls d @ []" "RowsNext \<notin> set []" "RowsScan \<notin> set []"
    by simp_all
  ultimately show ?thesis by blast
next
  case (Some targetSlice)
  note ts = this
  show ?thesis
  proof (cases "collect_tags fs []")
    case (Inl e)
    then show ?thesis
      by (simp add: unmarshal_def ts)
  next
    case (Inr populate)
    from collect_tags_covers [OF Inr assms(1,2)]
    have key: "Column t \<in> set (map fst populate)" by force
    let ?SQL = "if Driver c = ''postgres'' then postgresPlaceholders SQL else SQL"
    show ?thesis
    proof (cases "begin_tx b txOpts (stored d)")
      case (Some err)
      with Inr show ?thesis
        by (simp add: unmarshal_def ts called_def)
    next
      case None
      show ?thesis
      proof (cases "tx_query b ?SQL args (stored d)")
        case (Inl err)
        with Inr None show ?thesis
          by (simp add: unmarshal_def ts called_def deferred_end_def Let_def)
      next
        case (Inr res)
        obtain tx cur where res: "res = (tx, cur)" by (cases res)
        with Inr assms(3) have "Column t \<notin> set (Columns cur)" by simp
        with key have "missing_column (range_order b) populate (Columns cur) \<noteq> None"
          unfolding missing_column_def find_None_iff set_sort by blast
        then obtain col where "missing_column (range_order b) populate (Columns cur) = Some col"
          by auto
        with \<open>collect_tags fs [] = Inr populate\<close> None Inr res show ?thesis
          by (auto simp: unmarshal_def ts called_def deferred_end_def Let_def
              split: option.splits)
      qed
    qed
  qed
qed

theorem unmarshal_missing_column_witness:
  "Stat ! 1 \<in> set Stat \<and>
   field_tag (Stat ! 1) = Some \<lparr>Field = ''Total'', Column = ''total'', Options = [''agg'']\<rparr> \<and>
   tx_query (example_backend 0 day_only None)
     (if Driver (example_config ''postgres'') = ''postgres''
      then postgresPlaceholders ''select day from stats'' else ''select day from stats'')
     [] (stored empty_db) = Inr ([(''select day from stats'', [])], day_only) \<and>
   Column \<lparr>Field = ''Total'', Column = ''total'', Options = [''agg'']\<rparr> \<notin> set (Columns day_only) \<and>
   (\<exists>e d' new.
      unmarshal (example_backend 0 day_only None) (example_config ''postgres'') empty_db None
        (Some (Ptr (Slice (Ptr (Struct Stat))))) (Some []) ''select day from stats'' [] =
        (Returns (Some e), Some [], d') \<and>
      calls d' = calls empty_db @ new \<and> RowsNext \<notin> set new \<and> RowsScan \<notin> set new) \<and>
   unmarshal (example_backend 0 day_only None) (example_config ''postgres'') empty_db None
     (Some (Ptr (Slice (Ptr (Struct Stat))))) (Some []) ''select day from stats'' [] =
     (Returns (Some (missing_column_error ''total'')), Some [],
      \<lparr>stored = [(''select day from stats'', [])],
       calls = [TxBegin None, TxQuery ''select day from stats'' [], RowsClose, TxCommit]\<rparr>)"
proof -
  let ?B = "example_backend 0 day_only None"
  let ?t = "\<lparr>Field = ''Total'', Column = ''total'', Options = [''agg'']\<rparr>"
  have h1: "Stat ! 1 \<in> set Stat" by (simp add: Stat_def)
  have h2: "field_tag (Stat ! 1) = Some ?t" by (simp add: Stat_def field_tag_def)
  have q: "tx_query ?B (if Driver (example_config ''postgres'') = ''postgres''
              then postgresPlaceholders ''select day from stats'' else ''select day from stats'')
              [] (stored empty_db) = Inr ([(''select day from stats'', [])], day_only)"
    by (simp add: run_defs)
  have absent: "Column ?t \<notin> set (Columns day_only)" by (simp add: day_only_def)
  have h3: "\<forall>tx cur. tx_query ?B (if Driver (example_config ''postgres'') = ''postgres''
              then postgresPlaceholders ''select day from stats'' else ''select day from stats'')
              [] (stored empty_db) = Inr (tx, cur) \<longrightarrow> Column ?t \<notin> set (Columns cur)"
    using absent by (simp add: q)
  note c = unmarshal_missing_column [OF h1 h2 h3, of None "Some []"]
  have run: "unmarshal ?B (example_config ''postgres'') empty_db None
     (Some (Ptr (Slice (Ptr (Struct Stat))))) (Some []) ''select day from stats'' [] =
     (Returns (Some (missing_column_error ''total'')), Some [],
      \<lparr>stored = [(''select day from stats'', [])],
       calls = [TxBegin None, TxQuery ''select day from stats'' [], RowsClose, TxCommit]\<rparr>)"
    by (simp add: unmarshal_defs run_defs Stat_def day_only_def)
  show ?thesis
    by (intro conjI h1 h2 q absent c run)
qed

text \<open>
  C9. Every record the call appends comes from one row of the cursor, in order. In it a
  field of type \<open>string\<close> flagged \<open>date\<close> holds the first 10 bytes of the text the
  scan stored when that text is longer than 10 bytes, and what the scan stored, unchanged,
  when it is not. (Go's \<open>len\<close> and slicing count bytes.)
\<close>

theorem date_fields_first_ten:
  assumes wf: "unique_names fs" and tags: "collect_tags fs [] = Inr populate"
    and query: "tx_query b (if Driver c = ''postgres'' then postgresPlaceholders SQL else SQL)
                  args (stored d) = Inr (tx, cur)"
    and run: "unmarshal b c d txOpts (Some (Ptr (Slice (Ptr (Struct fs))))) (Some ts) SQL args =
                (out, ts', d')"
    and j: "j < length fs" and str: "ftyp (fs ! j) = TString"
    and tag: "field_tag (fs ! j) = Some t" and date: "''date'' \<in> set (Options t)"
  shows "\<exists>new. ts' = Some (ts @ new) \<and> length new \<le> length (pending cur) \<and>
     (\<forall>k<length new. \<exists>scanned.
        scan_record b populate fs (Columns cur) (pending cur ! k) = Inr scanned \<and>
        (length (Value_String TString (scanned ! j)) > 10 \<longrightarrow>
           new ! k ! j = FString (take 10 (Value_String TString (scanned ! j)))) \<and>
        (length (Value_String TString (scanned ! j)) \<le> 10 \<longrightarrow> new ! k ! j = scanned ! j))"
proof -
  from unmarshal_appends [OF tags run query] obtain new where new: "ts' = Some (ts @ new)"
    "length new \<le> length (pending cur)"
    "\<forall>k<length new. \<exists>scanned.
        scan_record b populate fs (Columns cur) (pending cur ! k) = Inr scanned \<and>
        coerce_record populate fs (Columns cur) scanned = Returns (new ! k)"
    by blast
  have "\<exists>scanned.
        scan_record b populate fs (Columns cur) (pending cur ! k) = Inr scanned \<and>
        (length (Value_String TString (scanned ! j)) > 10 \<longrightarrow>
           new ! k ! j = FString (take 10 (Value_String TString (scanned ! j)))) \<and>
        (length (Value_String TString (scanned ! j)) \<le> 10 \<longrightarrow> new ! k ! j = scanned ! j)"
    if "k < length new" for k
  proof -
    from new(3) that obtain scanned where
      s: "scan_record b populate fs (Columns cur) (pending cur ! k) = Inr scanned"
         "coerce_record populate fs (Columns cur) scanned = Returns (new ! k)"
      by blast
    from date_field_row [OF wf tags s j str tag date]
    have "new ! k ! j = first10 (scanned ! j)" .
    with s(1) show ?thesis by (auto simp: first10_def)
  qed
  with new(1,2) show ?thesis by blast
qed

theorem date_fields_first_ten_witness:
  "unique_names Event \<and>
   collect_tags Event [] = Inr [(''at'', \<lparr>Field = ''At'', Column = ''at'', Options = [''date'']\<rparr>)] \<and>
   tx_query (example_backend 0 event_rows None)
     (if Driver (example_config ''postgres'') = ''postgres''
      then postgresPlaceholders ''select at from events'' else ''select at from events'')
     [] (stored empty_db) = Inr ([(''select at from events'', [])], event_rows) \<and>
   unmarshal (example_backend 0 event_rows None) (example_config ''postgres'') empty_db None
     (Some (Ptr (Slice (Ptr (Struct Event))))) (Some []) ''select at from events'' [] =
     (Returns None, Some [[FString ''2024-01-02''], [FString ''20240102'']],
      \<lparr>stored = [(''select at from events'', [])],
       calls = [TxBegin None, TxQuery ''select at from events'' [], RowsNext, RowsScan,
                RowsNext, RowsScan, RowsNext, RowsClose, TxCommit]\<rparr>) \<and>
   (0::nat) < length Event \<and> ftyp (Event ! 0) = TString \<and>
   field_tag (Event ! 0) = Some \<lparr>Field = ''At'', Column = ''at'', Options = [''date'']\<rparr> \<and>
   ''date'' \<in> set (Options \<lparr>Field = ''At'', Column = ''at'', Options = [''date'']\<rparr>) \<and>
   (\<exists>new. Some [[FString ''2024-01-02''], [FString ''20240102'']] = Some ([] @ new) \<and>
      length new \<le> length (pending event_rows) \<and>
      (\<forall>k<length new. \<exists>scanned.
        scan_record (example_backend 0 event_rows None)
          [(''at'', \<lparr>Field = ''At'', Column = ''at'', Options = [''date'']\<rparr>)] Event
          (Columns event_rows) (pending event_rows ! k) = Inr scanned \<and>
        (length (Value_String TString (scanned ! 0)) > 10 \<longrightarrow>
           new ! k ! 0 = FString (take 10 (Value_String TString (scanned ! 0)))) \<and>
        (length (Value_String TString (scanned ! 0)) \<le> 10 \<longrightarrow> new ! k ! 0 = scanned ! 0)))"
proof -
  let ?B = "example_backend 0 event_rows None"
  let ?t = "\<lparr>Field = ''At'', Column = ''at'', Options = [''date'']\<rparr>"
  have h1: "unique_names Event"
    by (simp add: unique_names_def Event_def CanSet_def)
  have h2: "collect_tags Event [] = Inr [(''at'', ?t)]"
    by (simp add: Event_def field_tag_def)
  have h3: "tx_query ?B (if Driver (example_config ''postgres'') = ''postgres''
              then postgresPlaceholders ''select at from events'' else ''select at from events'')
              [] (stored empty_db) = Inr ([(''select at from events'', [])], event_rows)"
    by (simp add: run_defs)
  have h4: "unmarshal ?B (example_config ''postgres'') empty_db None
     (Some (Ptr (Slice (Ptr (Struct Event))))) (Some []) ''select at from events'' [] =
     (Returns None, Some [[FString ''2024-01-02''], [FString ''20240102'']],
      \<lparr>stored = [(''select at from events'', [])],
       calls = [TxBegin None, TxQuery ''select at from events'' [], RowsNext, RowsScan,
                RowsNext, RowsScan, RowsNext, RowsClose, TxCommit]\<rparr>)"
    by (simp add: unmarshal_defs run_defs Event_def event_rows_def)
  have h5: "(0::nat) < length Event" by (simp add: Event_def)
  have h6: "ftyp (Event ! 0) = TString" by (simp add: Event_def)
  have h7: "field_tag (Event ! 0) = Some ?t" by (simp add: Event_def field_tag_def)
  have h8: "''date'' \<in> set (Options ?t)" by simp
  note c = date_fields_first_ten [OF h1 h2 h3 h4 h5 h6 h7 h8]
  show ?thesis
    by (intro conjI h1 h2 h3 h4 h5 h6 h7 h8 c)
qed

text \<open>
  C9 as the specification words it counts characters, and fails on a text with
  characters of more than one byte. Here the column holds six times the two-byte
  character \<open>U+00E9\<close>: twelve bytes, six characters. The field is cut to ten bytes,
  five characters, although the text has no more than ten characters.
\<close>

theorem date_field_ten_bytes_counterexample:
  "unmarshal (example_backend 0 accent_rows None) (example_config ''postgres'') empty_db None
     (Some (Ptr (Slice (Ptr (Struct Event))))) (Some []) ''select at from events'' [] =
     (Returns None,
      Some [[FString [CHR 0xC3, CHR 0xA9, CHR 0xC3, CHR 0xA9, CHR 0xC3, CHR 0xA9,
                      CHR 0xC3, CHR 0xA9, CHR 0xC3, CHR 0xA9]]],
      \<lparr>stored = [(''select at from events'', [])],
       calls = [TxBegin None, TxQuery ''select at from events'' [], RowsNext, RowsScan,
                RowsNext, RowsClose, TxCommit]\<rparr>) \<and>
   pending accent_rows =
     [Inr [VString [CHR 0xC3, CHR 0xA9, CHR 0xC3, CHR 0xA9, CHR 0xC3, CHR 0xA9,
                    CHR 0xC3, CHR 0xA9, CHR 0xC3, CHR 0xA9, CHR 0xC3, CHR 0xA9]]] \<and>
   characters [CHR 0xC3, CHR 0xA9, CHR 0xC3, CHR 0xA9, CHR 0xC3, CHR 0xA9,
               CHR 0xC3, CHR 0xA9, CHR 0xC3, CHR 0xA9, CHR 0xC3, CHR 0xA9] = 6 \<and>
   characters [CHR 0xC3, CHR 0xA9, CHR 0xC3, CHR 0xA9, CHR 0xC3, CHR 0xA9,
               CHR 0xC3, CHR 0xA9, CHR 0xC3, CHR 0xA9] = 5"
  by (simp add: unmarshal_defs run_defs Event_def accent_rows_def characters_def)

text \<open>
  C10. A field that claims a column of the result but cannot be set, in a record type
  whose fields claim different columns, with a target pointer that is not nil. The
  column's destination is the scratch slot. Every record the call appends is the record
  built from its row, and in it the field holds its zero value. When the transaction
  begins, no claimed column is missing, every row builds a record and the cursor reports
  no fault, the call returns no error and appends the record of every row. And the call
  ends exactly as the call on the record type without that field's tag (same outcome,
  same records, same calls on the transaction), so the binding is never the reason of a
  failure.
\<close>

theorem unsettable_field_discarded:
  assumes wf: "unique_names fs" and tags: "collect_tags fs [] = Inr populate"
    and j: "j < length fs" and tag: "field_tag (fs ! j) = Some t"
    and unset: "\<not> (CanSet (fs ! j) \<and> CanAddr (fs ! j))"
    and query: "tx_query b (if Driver c = ''postgres'' then postgresPlaceholders SQL else SQL)
                  args (stored d) = Inr (tx, cur)"
  shows "(\<forall>i<length (Columns cur). Columns cur ! i = Column t \<longrightarrow>
            columnPointers (row_bindings populate fs (Columns cur)) ! i = ToScratch) \<and>
         (\<forall>out ts' d'.
            unmarshal b c d txOpts (Some (Ptr (Slice (Ptr (Struct fs))))) (Some ts) SQL args =
              (out, ts', d') \<longrightarrow>
            (\<exists>new. ts' = Some (ts @ new) \<and> length new \<le> length (pending cur) \<and>
               (\<forall>k<length new.
                  built_record b populate fs (Columns cur) (pending cur ! k) = Some (new ! k) \<and>
                  new ! k ! j = zero_value (ftyp (fs ! j))))) \<and>
         (begin_tx b txOpts (stored d) = None \<and>
          missing_column (range_order b) populate (Columns cur) = None \<and>
          (\<forall>r \<in> set (pending cur). built_record b populate fs (Columns cur) r \<noteq> None) \<and>
          Err cur = None \<longrightarrow>
          (\<exists>new d'.
             unmarshal b c d txOpts (Some (Ptr (Slice (Ptr (Struct fs))))) (Some ts) SQL args =
               (Returns None, Some (ts @ new), d') \<and>
             map (built_record b populate fs (Columns cur)) (pending cur) = map Some new)) \<and>
         (Column t \<in> set (Columns cur) \<longrightarrow>
          unmarshal b c d txOpts (Some (Ptr (Slice (Ptr (Struct fs))))) (Some ts) SQL args =
          unmarshal b c d txOpts (Some (Ptr (Slice (Ptr (Struct (untagged fs j)))))) (Some ts) SQL args)"
proof (intro conjI allI impI)
  from unset have ns: "\<not> CanSet (fs ! j)" by (simp add: CanAddr_def)
  {
    fix i
    assume "i < length (Columns cur)" and "Columns cur ! i = Column t"
    then show "columnPointers (row_bindings populate fs (Columns cur)) ! i = ToScratch"
      using unsettable_column_scratch [OF wf tags j tag ns]
      by (simp add: row_bindings_lists)
  next
    fix out ts' d'
    assume run: "unmarshal b c d txOpts (Some (Ptr (Slice (Ptr (Struct fs))))) (Some ts) SQL args =
                   (out, ts', d')"
    from unmarshal_appends [OF tags run query] obtain new where new: "ts' = Some (ts @ new)"
      "length new \<le> length (pending cur)"
      "\<forall>k<length new. \<exists>scanned.
          scan_record b populate fs (Columns cur) (pending cur ! k) = Inr scanned \<and>
          coerce_record populate fs (Columns cur) scanned = Returns (new ! k)"
      by blast
    have "built_record b populate fs (Columns cur) (pending cur ! k) = Some (new ! k) \<and>
          new ! k ! j = zero_value (ftyp (fs ! j))" if "k < length new" for k
    proof -
      from that new(3) obtain scanned where
        s: "scan_record b populate fs (Columns cur) (pending cur ! k) = Inr scanned"
           "coerce_record populate fs (Columns cur) scanned = Returns (new ! k)"
        by blast
      from unsettable_field_row [OF wf tags j ns s] built_record_Some [OF s]
      show ?thesis by simp
    qed
    with new(1,2)
    show "\<exists>new. ts' = Some (ts @ new) \<and> length new \<le> length (pending cur) \<and>
               (\<forall>k<length new.
                  built_record b populate fs (Columns cur) (pending cur ! k) = Some (new ! k) \<and>
                  new ! k ! j = zero_value (ftyp (fs ! j)))"
      by blast
  next
    assume a: "begin_tx b txOpts (stored d) = None \<and>
          missing_column (range_order b) populate (Columns cur) = None \<and>
          (\<forall>r \<in> set (pending cur). built_record b populate fs (Columns cur) r \<noteq> None) \<and>
          Err cur = None"
    then have rows: "\<forall>r \<in> set (pending cur). built_record b populate fs (Columns cur) r \<noteq> None"
      by blast
    from um_rows_built [OF rows]
    obtain new cs' where new: "um_rows b populate fs (Columns cur) (pending cur) ts
        (calls (called [TxBegin txOpts, TxQuery (if Driver c = ''postgres'' then postgresPlaceholders SQL else SQL) args] d)) =
        (Returns None, ts @ new, cs')"
      "map (built_record b populate fs (Columns cur)) (pending cur) = map Some new"
      by blast
    from new(1) a tags query
    have "\<exists>d'. unmarshal b c d txOpts (Some (Ptr (Slice (Ptr (Struct fs))))) (Some ts) SQL args =
             (Returns None, Some (ts @ new), d')"
      by (simp add: unmarshal_def Let_def)
    with new(2)
    show "\<exists>new d'.
             unmarshal b c d txOpts (Some (Ptr (Slice (Ptr (Struct fs))))) (Some ts) SQL args =
               (Returns None, Some (ts @ new), d') \<and>
             map (built_record b populate fs (Columns cur)) (pending cur) = map Some new"
      by blast
  next
    assume "Column t \<in> set (Columns cur)"
    from unmarshal_untagged [OF wf tags j tag ns query this]
    show "unmarshal b c d txOpts (Some (Ptr (Slice (Ptr (Struct fs))))) (Some ts) SQL args =
          unmarshal b c d txOpts (Some (Ptr (Slice (Ptr (Struct (untagged fs j)))))) (Some ts) SQL args" .
  }
qed

theorem unsettable_field_discarded_witness:
  "unique_names Person \<and>
   collect_tags Person [] =
     Inr [(''name'', \<lparr>Field = ''Name'', Column = ''name'', Options = []\<rparr>),
          (''age'', \<lparr>Field = ''age'', Column = ''age'', Options = []\<rparr>)] \<and>
   (1::nat) < length Person \<and>
   field_tag (Person ! 1) = Some \<lparr>Field = ''age'', Column = ''age'', Options = []\<rparr> \<and>
   \<not> (CanSet (Person ! 1) \<and> CanAddr (Person ! 1)) \<and>
   tx_query (example_backend 0 person_rows None)
     (if Driver (example_config ''postgres'') = ''postgres''
      then postgresPlaceholders ''select name, age from people'' else ''select name, age from people'')
     [] (stored empty_db) = Inr ([(''select name, age from people'', [])], person_rows) \<and>
   (1::nat) < length (Columns person_rows) \<and>
   Columns person_rows ! 1 = Column \<lparr>Field = ''age'', Column = ''age'', Options = []\<rparr> \<and>
   columnPointers (row_bindings
     [(''name'', \<lparr>Field = ''Name'', Column = ''name'', Options = []\<rparr>),
      (''age'', \<lparr>Field = ''age'', Column = ''age'', Options = []\<rparr>)]
     Person (Columns person_rows)) ! 1 = ToScratch \<and>
   unmarshal (example_backend 0 person_rows None) (example_config ''postgres'') empty_db None
     (Some (Ptr (Slice (Ptr (Struct Person))))) (Some []) ''select name, age from people'' [] =
     (Returns None, Some [[FString ''Ann'', FZero]],
      \<lparr>stored = [(''select name, age from people'', [])],
       calls = [TxBegin None, TxQuery ''select name, age from people'' [], RowsNext, RowsScan,
                RowsNext, RowsClose, TxCommit]\<rparr>) \<and>
   (\<exists>new. Some [[FString ''Ann'', FZero]] = Some ([] @ new) \<and>
      length new \<le> length (pending person_rows) \<and>
      (\<forall>k<length new.
         built_record (example_backend 0 person_rows None)
           [(''name'', \<lparr>Field = ''Name'', Column = ''name'', Options = []\<rparr>),
            (''age'', \<lparr>Field = ''age'', Column = ''age'', Options = []\<rparr>)]
           Person (Columns person_rows) (pending person_rows ! k) = Some (new ! k) \<and>
         new ! k ! 1 = zero_value (ftyp (Person ! 1)))) \<and>
   begin_tx (example_backend 0 person_rows None) None (stored empty_db) = None \<and>
   missing_column (range_order (example_backend 0 person_rows None))
     [(''name'', \<lparr>Field = ''Name'', Column = ''name'', Options = []\<rparr>),
      (''age'', \<lparr>Field = ''age'', Column = ''age'', Options = []\<rparr>)]
     (Columns person_rows) = None \<and>
   pending person_rows = [Inr [VString ''Ann'', VInt64 21]] \<and>
   built_record (example_backend 0 person_rows None)
     [(''name'', \<lparr>Field = ''Name'', Column = ''name'', Options = []\<rparr>),
      (''age'', \<lparr>Field = ''age'', Column = ''age'', Options = []\<rparr>)]
     Person (Columns person_rows) (Inr [VString ''Ann'', VInt64 21]) = Some [FString ''Ann'', FZero] \<and>
   Err person_rows = None \<and>
   (\<exists>new d'.
      unmarshal (example_backend 0 person_rows None) (example_config ''postgres'') empty_db None
        (Some (Ptr (Slice (Ptr (Struct Person))))) (Some []) ''select name, age from people'' [] =
        (Returns None, Some ([] @ new), d') \<and>
      map (built_record (example_backend 0 person_rows None)
             [(''name'', \<lparr>Field = ''Name'', Column = ''name'', Options = []\<rparr>),
              (''age'', \<lparr>Field = ''age'', Column = ''age'', Options = []\<rparr>)]
             Person (Columns person_rows)) (pending person_rows) = map Some new) \<and>
   Column \<lparr>Field = ''age'', Column = ''age'', Options = []\<rparr> \<in> set (Columns person_rows) \<and>
   unmarshal (example_backend 0 person_rows None) (example_config ''postgres'') empty_db None
     (Some (Ptr (Slice (Ptr (Struct Person))))) (Some []) ''select name, age from people'' [] =
   unmarshal (example_backend 0 person_rows None) (example_config ''postgres'') empty_db None
     (Some (Ptr (Slice (Ptr (Struct (untagged Person 1)))))) (Some []) ''select name, age from people'' []"
proof -
  let ?B = "example_backend 0 person_rows None"
  let ?n = "\<lparr>Field = ''Name'', Column = ''name'', Options = []\<rparr>"
  let ?t = "\<lparr>Field = ''age'', Column = ''age'', Options = []\<rparr>"
  let ?P = "[(''name'', ?n), (''age'', ?t)]"
  have h1: "unique_names Person"
    by (simp add: unique_names_def Person_def CanSet_def)
  have h2: "collect_tags Person [] = Inr ?P"
    by (simp add: Person_def field_tag_def)
  have h3: "(1::nat) < length Person" by (simp add: Person_def)
  have h4: "field_tag (Person ! 1) = Some ?t" by (simp add: Person_def field_tag_def)
  have h5: "\<not> (CanSet (Person ! 1) \<and> CanAddr (Person ! 1))"
    by (simp add: Person_def CanSet_def)
  have h6: "tx_query ?B (if Driver (example_config ''postgres'') = ''postgres''
              then postgresPlaceholders ''select name, age from people''
              else ''select name, age from people'')
              [] (stored empty_db) = Inr ([(''select name, age from people'', [])], person_rows)"
    by (simp add: run_defs)
  have i1: "(1::nat) < length (Columns person_rows)" by (simp add: person_rows_def)
  have i2: "Columns person_rows ! 1 = Column ?t" by (simp add: person_rows_def)
  have run: "unmarshal ?B (example_config ''postgres'') empty_db None
     (Some (Ptr (Slice (Ptr (Struct Person))))) (Some []) ''select name, age from people'' [] =
     (Returns None, Some [[FString ''Ann'', FZero]],
      \<lparr>stored = [(''select name, age from people'', [])],
       calls = [TxBegin None, TxQuery ''select name, age from people'' [], RowsNext, RowsScan,
                RowsNext, RowsClose, TxCommit]\<rparr>)"
    by (simp add: unmarshal_defs run_defs Person_def person_rows_def)
  have g2: "begin_tx ?B None (stored empty_db) = None" by (simp add: run_defs)
  have g3: "missing_column (range_order ?B) ?P (Columns person_rows) = None"
    by (simp add: missing_column_def person_rows_def example_backend_def)
  have g4a: "pending person_rows = [Inr [VString ''Ann'', VInt64 21]]"
    by (simp add: person_rows_def)
  have g4b: "built_record ?B ?P Person (Columns person_rows) (Inr [VString ''Ann'', VInt64 21]) =
               Some [FString ''Ann'', FZero]"
    by (simp add: built_record_def unmarshal_defs run_defs Person_def person_rows_def)
  have g4: "\<forall>r \<in> set (pending person_rows). built_record ?B ?P Person (Columns person_rows) r \<noteq> None"
    using g4b by (simp add: g4a)
  have g5: "Err person_rows = None" by (simp add: person_rows_def)
  have k1: "Column ?t \<in> set (Columns person_rows)" by (simp add: person_rows_def)
  note c = unsettable_field_discarded [OF h1 h2 h3 h4 h5 h6, of None "[]"]
  from c i1 i2 have c1: "columnPointers (row_bindings ?P Person (Columns person_rows)) ! 1 = ToScratch"
    by blast
  from c run
  have c2: "\<exists>new. Some [[FString ''Ann'', FZero]] = Some ([] @ new) \<and>
      length new \<le> length (pending person_rows) \<and>
      (\<forall>k<length new.
         built_record ?B ?P Person (Columns person_rows) (pending person_rows ! k) = Some (new ! k) \<and>
         new ! k ! 1 = zero_value (ftyp (Person ! 1)))"
    by blast
  from c g2 g3 g4 g5
  have c3: "\<exists>new d'.
      unmarshal ?B (example_config ''postgres'') empty_db None
        (Some (Ptr (Slice (Ptr (Struct Person))))) (Some []) ''select name, age from people'' [] =
        (Returns None, Some ([] @ new), d') \<and>
      map (built_record ?B ?P Person (Columns person_rows)) (pending person_rows) = map Some new"
    by blast
  from c k1
  have c4: "unmarshal ?B (example_config ''postgres'') empty_db None
     (Some (Ptr (Slice (Ptr (Struct Person))))) (Some []) ''select name, age from people'' [] =
   unmarshal ?B (example_config ''postgres'') empty_db None
     (Some (Ptr (Slice (Ptr (Struct (untagged Person 1)))))) (Some []) ''select name, age from people'' []"
    by blast
  show ?thesis
    by (intro conjI h1 h2 h3 h4 h5 h6 i1 i2 c1 run c2 g2 g3 g4a g4b g5 c3 k1 c4)
qed

text \<open>
  C10 as the specification words it (the call does not fail) fails on the record type
  \<open>Clash\<close>: the field \<open>id\<close> claims the column \<open>id\<close> of the result and cannot be
  set, the field \<open>Id\<close> claims the same column. The call fails with the
  duplicate-column error; without the tag of \<open>id\<close> it returns no error and appends the
  record. It fails too at a nil target pointer, on \<open>Person\<close>, whose fields claim
  different columns.
\<close>

theorem unsettable_field_duplicate_counterexample:
  "field_tag (Clash ! 0) = Some \<lparr>Field = ''id'', Column = ''id'', Options = []\<rparr> \<and>
   \<not> CanSet (Clash ! 0) \<and>
   ''id'' \<in> set (Columns id_rows) \<and>
   unmarshal (example_backend 0 id_rows None) (example_config ''postgres'') empty_db None
     (Some (Ptr (Slice (Ptr (Struct Clash))))) (Some []) ''select id from t'' [] =
     (Returns (Some ''dbi: column id used on multiple fields''), Some [], empty_db) \<and>
   unmarshal (example_backend 0 id_rows None) (example_config ''postgres'') empty_db None
     (Some (Ptr (Slice (Ptr (Struct (untagged Clash 0)))))) (Some []) ''select id from t'' [] =
     (Returns None, Some [[FZero, FVal (VInt64 7)]],
      \<lparr>stored = [(''select id from t'', [])],
       calls = [TxBegin None, TxQuery ''select id from t'' [], RowsNext, RowsScan,
                RowsNext, RowsClose, TxCommit]\<rparr>) \<and>
   unmarshal (example_backend 0 person_rows None) (example_config ''postgres'') empty_db None
     (Some (Ptr (Slice (Ptr (Struct Person))))) None ''select name, age from people'' [] =
     (Returns (Some ''dbi: unable to set/change slice''), None, empty_db)"
  by (simp add: unmarshal_defs run_defs Clash_def id_rows_def untagged_def CanSet_def
      duplicate_error_def)
section \<open>Properties of the stringification\<close>

lemma digit_char_value: "d < 10 \<Longrightarrow> digit_value (digit_char d) = d"
proof -
  assume "d < 10"
  then have "d \<in> {0, 1, 2, 3, 4, 5, 6, 7, 8, 9}" by auto
  then show ?thesis
    by (auto simp: digit_char_def digit_value_def)
qed

lemma digit_char_is_digit: "d < 10 \<Longrightarrow> is_digit (digit_char d)"
proof -
  assume "d < 10"
  then have "d \<in> {0, 1, 2, 3, 4, 5, 6, 7, 8, 9}" by auto
  then show ?thesis
    by (auto simp: digit_char_def is_digit_def)
qed

lemma decimal_value_snoc: "decimal_value (s @ [c]) = 10 * decimal_value s + digit_value c"
  by (simp add: decimal_value_def)

lemma decimal_value_show_nat: "decimal_value (show_nat n) = n"
proof (induction n rule: show_nat.induct)
  case (1 n)
  show ?case
  proof (cases "n < 10")
    case True
    then show ?thesis
      by (subst show_nat.simps) (simp add: decimal_value_def digit_char_value)
  next
    case False
    with 1 have "decimal_value (show_nat (n div 10)) = n div 10" by simp
    with False show ?thesis
      by (subst show_nat.simps) (simp add: decimal_value_snoc digit_char_value)
  qed
qed

lemma show_nat_digits: "list_all is_digit (show_nat n) \<and> show_nat n \<noteq> []"
proof (induction n rule: show_nat.induct)
  case (1 n)
  show ?case
  proof (cases "n < 10")
    case True
    then show ?thesis
      by (subst (1 2) show_nat.simps) (simp add: digit_char_is_digit)
  next
    case False
    with 1 have "list_all is_digit (show_nat (n div 10))" by simp
    with False show ?thesis
      by (subst (1 2) show_nat.simps) (simp add: digit_char_is_digit)
  qed
qed

lemma read_int_show_int: "read_int (show_int i) = i"
proof (cases "i < 0")
  case True
  then show ?thesis
    by (simp add: show_int_def decimal_value_show_nat)
next
  case False
  obtain c cs where s: "show_nat (nat i) = c # cs"
    using show_nat_digits [of "nat i"] by (cases "show_nat (nat i)") auto
  with show_nat_digits [of "nat i"] have "is_digit c" by simp
  then have "c \<noteq> CHR ''-''" by (auto simp: is_digit_def)
  with False s decimal_value_show_nat [of "nat i"] show ?thesis
    by (simp add: show_int_def)
qed

lemma length_show_nat: "0 < k \<Longrightarrow> n < 10 ^ k \<Longrightarrow> length (show_nat n) \<le> k"
proof (induction k arbitrary: n)
  case 0
  then show ?case by simp
next
  case (Suc k)
  show ?case
  proof (cases "n < 10")
    case True
    then show ?thesis by (subst show_nat.simps) simp
  next
    case False
    with Suc.prems have k: "0 < k" by (cases k) auto
    from Suc.prems have "n div 10 < 10 ^ k" by (simp add: less_mult_imp_div_less mult.commute)
    from Suc.IH [OF k this] False show ?thesis
      by (subst show_nat.simps) simp
  qed
qed

lemma decimal_value_zeros: "decimal_value (replicate k (CHR ''0'') @ s) = decimal_value s"
proof -
  have "foldl (\<lambda>a c. 10 * a + digit_value c) 0 (replicate k (CHR ''0'')) = 0"
    by (induction k) (simp_all add: digit_value_def)
  then show ?thesis by (simp add: decimal_value_def)
qed

lemma pad_nat_six: "n < 1000000 \<Longrightarrow> length (pad_nat 6 n) = 6 \<and> decimal_value (pad_nat 6 n) = n"
  using length_show_nat [of 6 n]
  by (simp add: pad_nat_def decimal_value_zeros decimal_value_show_nat)

lemma scaled_round_nearest:
  assumes "e < 0"
  shows "2 * \<bar>int (scaled_round m e) * 2 ^ nat (- e) - int m * 1000000\<bar> \<le> 2 ^ nat (- e)"
proof -
  define den :: nat where "den = 2 ^ nat (- e)"
  define num :: nat where "num = m * 1000000"
  define q where "q = num div den"
  define r where "r = num mod den"
  have den: "0 < den" by (simp add: den_def)
  have split: "num = q * den + r" by (simp add: q_def r_def)
  have r: "r < den" using den by (simp add: r_def)
  have sr: "scaled_round m e = (if den < 2 * r \<or> (2 * r = den \<and> odd q) then q + 1 else q)"
    using assms by (simp add: scaled_round_def Let_def den_def num_def q_def r_def)
  have "2 * \<bar>int (scaled_round m e) * int den - int num\<bar> \<le> int den"
  proof (cases "den < 2 * r \<or> (2 * r = den \<and> odd q)")
    case True
    with sr have "scaled_round m e = q + 1" by simp
    then have "int (scaled_round m e) * int den - int num = int den - int r"
      by (simp add: split algebra_simps)
    with True r show ?thesis by auto
  next
    case False
    with sr have "scaled_round m e = q" by simp
    then have "int (scaled_round m e) * int den - int num = - int r"
      by (simp add: split algebra_simps)
    with False show ?thesis by auto
  qed
  then show ?thesis by (simp add: den_def num_def)
qed

text \<open>The shape of what \<open>%f\<close> prints for a finite value.\<close>

lemma not_digit_point: "\<not> is_digit (CHR ''.'')" "\<not> is_digit (CHR ''-'')"
  by (simp_all add: is_digit_def)

lemma pad_nat_digits: "list_all is_digit (pad_nat w n) \<and> pad_nat w n \<noteq> []"
proof -
  have "is_digit (CHR ''0'')" by (simp add: is_digit_def)
  then have "list_all is_digit (replicate k (CHR ''0''))" for k
    by (simp add: list_all_iff)
  with show_nat_digits [of n] show ?thesis
    by (simp add: pad_nat_def)
qed

lemma fixed_point_digits:
  assumes w: "list_all is_digit whole" "whole \<noteq> []" and f: "list_all is_digit frac" "frac \<noteq> []"
  shows "fixed_point ((if neg then ''-'' else []) @ whole @ ''.'' @ frac)"
proof -
  from w have all: "\<And>x. x \<in> set whole \<Longrightarrow> is_digit x" by (simp add: list_all_iff)
  have d: "dropWhile is_digit (whole @ CHR ''.'' # frac) = CHR ''.'' # frac"
    using all by (simp add: dropWhile_append2 not_digit_point)
  have t: "takeWhile is_digit (whole @ CHR ''.'' # frac) = whole"
    using all by (simp add: takeWhile_append2 not_digit_point)
  from w obtain c cs where wc: "whole = c # cs" by (cases whole) auto
  with all have "is_digit c" by simp
  then have c: "c \<noteq> CHR ''-''" using not_digit_point(2) by auto
  show ?thesis
  proof (cases neg)
    case True
    then show ?thesis
      using d t w(2) f by (simp add: fixed_point_def)
  next
    case False
    have "hd (whole @ CHR ''.'' # frac) \<noteq> CHR ''-''" using wc c by simp
    with False show ?thesis
      using d t w(2) f by (simp add: fixed_point_def)
  qed
qed

lemma fixed_point_fmt_f: "fixed_point (fmt_f (Finite neg m e))"
  using fixed_point_digits [OF show_nat_digits [THEN conjunct1] show_nat_digits [THEN conjunct2]
      pad_nat_digits [THEN conjunct1] pad_nat_digits [THEN conjunct2]]
  by simp

text \<open>
  C6, as the code has it. The conversion of \<open>QueryString\<close> renders: nil as the empty
  text; a text as itself; an \<open>int64\<close>, \<open>int32\<close> or \<open>int16\<close> in decimal (reading the
  numeral back gives the integer); a finite \<open>float32\<close> or \<open>float64\<close> in fixed point,
  with exactly six digits after the point, the value scaled by \<open>10^6\<close> and rounded to
  the nearest integer, and one that is not finite as \<open>NaN\<close>, \<open>+Inf\<close> or \<open>-Inf\<close>; a
  boolean as \<open>true\<close> or \<open>false\<close>; a \<open>uint8\<close> as the UTF-8 encoding of the character
  it numbers, one byte below 128; a timestamp in RFC 3339 with its fraction of a second;
  and every other type through the \<open>%s\<close> verb: a byte slice as the text of its bytes,
  an integer of another type as \<open>%!s(T=n)\<close>.
\<close>

theorem stringify_rule:
  "stringify VNil = [] \<and>
   stringify (VString s) = s \<and>
   stringify (VInt64 a) = show_int (sint a) \<and>
   stringify (VInt32 b) = show_int (sint b) \<and>
   stringify (VInt16 c) = show_int (sint c) \<and>
   read_int (show_int i) = i \<and>
   stringify (VFloat32 x) = fmt_f x \<and>
   stringify (VFloat64 x) = fmt_f x \<and>
   (\<exists>frac. fmt_f (Finite neg m e) =
      (if neg then ''-'' else []) @ show_nat (scaled_round m e div 1000000) @ ''.'' @ frac \<and>
      length frac = 6 \<and> decimal_value frac = scaled_round m e mod 1000000) \<and>
   (e < 0 \<longrightarrow> 2 * \<bar>int (scaled_round m e) * 2 ^ nat (- e) - int m * 1000000\<bar> \<le> 2 ^ nat (- e)) \<and>
   (0 \<le> e \<longrightarrow> scaled_round m e = m * 2 ^ nat e * 1000000) \<and>
   stringify (VBool True) = ''true'' \<and>
   stringify (VBool False) = ''false'' \<and>
   (unat u < 128 \<longrightarrow> stringify (VUint8 u) = [char_of (unat u)]) \<and>
   (128 \<le> unat u \<longrightarrow>
      stringify (VUint8 u) = [char_of (192 + unat u div 64), char_of (128 + unat u mod 64)]) \<and>
   stringify (VTime t) = Format_RFC3339Nano t \<and>
   stringify (VTime \<lparr>year = 2024, month = 1, day = 2, hour = 3, minute = 4, second = 5,
                     nanosecond = 678000000, zone_offset = 0\<rparr>) = ''2024-01-02T03:04:05.678Z'' \<and>
   stringify (VBytes bs) = bs \<and>
   stringify (VInt8 a8) = bad_verb_s ''int8'' (show_int (sint a8)) \<and>
   stringify (VInt a0) = bad_verb_s ''int'' (show_int (sint a0)) \<and>
   stringify (VUint16 u16) = bad_verb_s ''uint16'' (show_nat (unat u16)) \<and>
   stringify (VUint32 u32) = bad_verb_s ''uint32'' (show_nat (unat u32)) \<and>
   stringify (VUint64 u64) = bad_verb_s ''uint64'' (show_nat (unat u64)) \<and>
   stringify (VUint u0) = bad_verb_s ''uint'' (show_nat (unat u0)) \<and>
   fixed_point (fmt_f (Finite neg m e)) \<and>
   fmt_f NaN = ''NaN'' \<and> fmt_f (Infinite False) = ''+Inf'' \<and> fmt_f (Infinite True) = ''-Inf''"
proof -
  have frac: "\<exists>frac. fmt_f (Finite neg m e) =
      (if neg then ''-'' else []) @ show_nat (scaled_round m e div 1000000) @ ''.'' @ frac \<and>
      length frac = 6 \<and> decimal_value frac = scaled_round m e mod 1000000"
    using pad_nat_six [of "scaled_round m e mod 1000000"]
    by (intro exI [of _ "pad_nat 6 (scaled_round m e mod 1000000)"]) simp
  have time: "stringify (VTime \<lparr>year = 2024, month = 1, day = 2, hour = 3, minute = 4, second = 5,
                     nanosecond = 678000000, zone_offset = 0\<rparr>) = ''2024-01-02T03:04:05.678Z''"
    by (simp add: Format_RFC3339Nano_def appendInt_def appendNano_def trim_zeros_def
        format_zone_def show_nat_eval pad_nat_def)
  have byte: "unat u < 128 \<longrightarrow> stringify (VUint8 u) = [char_of (unat u)]"
    by (simp add: fmt_c_def)
  have bytes: "128 \<le> unat u \<longrightarrow>
      stringify (VUint8 u) = [char_of (192 + unat u div 64), char_of (128 + unat u mod 64)]"
    by (simp add: fmt_c_def)
  have exact: "0 \<le> e \<longrightarrow> scaled_round m e = m * 2 ^ nat e * 1000000"
    by (simp add: scaled_round_def)
  note shape = fixed_point_fmt_f [of neg m e]
  show ?thesis
    using frac time byte bytes exact scaled_round_nearest [of e m] read_int_show_int [of i]
    by (intro conjI shape) simp_all
qed

theorem stringify_rule_witness:
  "(- 1 :: int) < 0 \<and>
   2 * \<bar>int (scaled_round 3 (- 1)) * 2 ^ nat (- (- 1)) - int 3 * 1000000\<bar> \<le> 2 ^ nat (- (- 1)) \<and>
   stringify (VFloat64 (Finite False 3 (- 1))) = ''1.500000'' \<and>
   (0 :: int) \<le> 2 \<and> scaled_round 3 2 = 3 * 2 ^ nat 2 * 1000000 \<and>
   unat (65 :: 8 word) < 128 \<and> stringify (VUint8 65) = [char_of (unat (65 :: 8 word))] \<and>
   stringify (VUint8 65) = ''A'' \<and>
   128 \<le> unat (233 :: 8 word) \<and>
   stringify (VUint8 233) =
     [char_of (192 + unat (233 :: 8 word) div 64), char_of (128 + unat (233 :: 8 word) mod 64)] \<and>
   stringify (VUint8 233) = [CHR 0xC3, CHR 0xA9] \<and>
   stringify (VInt64 (- 42)) = ''-42'' \<and>
   fixed_point (fmt_f (Finite False 3 (- 1))) \<and> fixed_point ''1.500000''"
proof -
  have h1: "(- 1 :: int) < 0" by simp
  have h2: "(0 :: int) \<le> 2" by simp
  have h3: "unat (65 :: 8 word) < 128" by simp
  note c1 = stringify_rule [of _ _ _ _ _ _ False 3 "- 1" "65"]
  note c2 = stringify_rule [of _ _ _ _ _ _ False 3 "2" "65"]
  from c1 h1 have r1: "2 * \<bar>int (scaled_round 3 (- 1)) * 2 ^ nat (- (- 1)) - int 3 * 1000000\<bar> \<le> 2 ^ nat (- (- 1))"
    by blast
  from c2 h2 have r2: "scaled_round 3 2 = 3 * 2 ^ nat 2 * 1000000" by blast
  from c1 h3 have r3: "stringify (VUint8 65) = [char_of (unat (65 :: 8 word))]" by blast
  have h4: "128 \<le> unat (233 :: 8 word)" by simp
  note c3 = stringify_rule [of _ _ _ _ _ _ False 3 "2" "233"]
  from c3 h4 have r4: "stringify (VUint8 233) =
     [char_of (192 + unat (233 :: 8 word) div 64), char_of (128 + unat (233 :: 8 word) mod 64)]"
    by blast
  have e4: "stringify (VUint8 233) = [CHR 0xC3, CHR 0xA9]"
    by (simp add: fmt_c_def char_of_def bit_iff_odd)
  have e1: "stringify (VFloat64 (Finite False 3 (- 1))) = ''1.500000''"
    by (simp add: scaled_round_def show_nat_eval pad_nat_def)
  have e2: "stringify (VUint8 65) = ''A''"
    by (simp add: fmt_c_def char_of_def bit_iff_odd)
  have e3: "stringify (VInt64 (- 42)) = ''-42''"
    by (simp add: show_int_def show_nat_eval)
  from c1 have r5: "fixed_point (fmt_f (Finite False 3 (- 1)))" by blast
  have e5: "fixed_point ''1.500000''"
    by (simp add: fixed_point_def is_digit_def)
  show ?thesis
    by (intro conjI h1 r1 e1 h2 r2 h3 r3 e2 h4 r4 e4 e3 r5 e5)
qed

text \<open>
  C6 as the specification words it fails twice. Any integer width in decimal: no case of
  the type switch names \<open>int8\<close>, and the \<open>default\<close> branch prints it with \<open>%s\<close>.
  Any floating value in fixed point: \<open>%f\<close> prints a value that is not a number as
  \<open>NaN\<close>.
\<close>

theorem stringify_int8_nan_counterexample:
  "stringify (VInt8 5) = ''%!s(int8=5)'' \<and> stringify (VInt8 5) \<noteq> ''5'' \<and>
   stringify (VFloat64 NaN) = ''NaN'' \<and> \<not> fixed_point (stringify (VFloat64 NaN))"
  by (simp add: bad_verb_s_def show_int_def show_nat_eval fixed_point_def is_digit_def)
section \<open>Where the transactional operations leave their contract\<close>

text \<open>
  C1. The specification says: when a statement of \<open>MultiQuery\<close> fails, the batch is
  aborted, the transaction is rolled back, and the call returns no result sets and the
  error. The code aborts and returns nil and the error, but it commits. Here the second
  of two statements is refused: the deferred closure finds the function's \<open>err\<close> still
  nil and calls \<open>Commit\<close>; the insert of the first statement is stored, and
  \<open>Rollback\<close> is not among the calls.
\<close>

theorem MultiQuery_commits_after_failure:
  "MultiQuery (example_backend 1 no_rows None) (example_config ''postgres'') empty_db
     [''insert into t values (?)'', ''select x from t where y = ?'']
     [[VInt64 1], [VInt64 1, VInt64 2]] =
   (([], Some ''sql: expected 1 arguments, got 2''),
    \<lparr>stored = [(''insert into t values ($1)'', [VInt64 1])],
     calls = [TxBegin None, TxQuery ''insert into t values ($1)'' [VInt64 1], RowsNext,
              TxQuery ''select x from t where y = $1'' [VInt64 1, VInt64 2],
              RowsClose, TxCommit]\<rparr>)"
  by (simp add: MultiQuery_def run_defs)

text \<open>The same for every backend and every input.\<close>

lemma mq_rows_calls:
  "mq_rows cols rs rowset cs = (res, cs') \<Longrightarrow>
   \<exists>new. cs' = cs @ new \<and> set new \<subseteq> {RowsNext, RowsScan}"
proof (induction rs arbitrary: rowset cs)
  case Nil
  then show ?case by auto
next
  case (Cons r rs)
  show ?case
  proof (cases "scan_generic (length cols) r")
    case (Inl err)
    with Cons.prems show ?thesis by auto
  next
    case (Inr columns)
    with Cons.prems have "mq_rows cols rs (rowset @ [row_map cols columns])
        (cs @ [RowsNext, RowsScan]) = (res, cs')" by simp
    from Cons.IH [OF this] obtain new where "cs' = (cs @ [RowsNext, RowsScan]) @ new"
      "set new \<subseteq> {RowsNext, RowsScan}" by blast
    then show ?thesis
      by (intro exI [of _ "[RowsNext, RowsScan] @ new"]) auto
  qed
qed

lemma mq_stmts_calls:
  "mq_stmts b drv stmts tx d ret opened = (res, tx', d', opened') \<Longrightarrow>
   \<exists>new. calls d' = calls d @ new \<and> TxRollback \<notin> set new \<and> TxCommit \<notin> set new \<and>
          stored d' = stored d"
proof (induction stmts arbitrary: tx d ret opened)
  case Nil
  then show ?case by simp
next
  case (Cons sa stmts)
  obtain s0 a where sa: "sa = (s0, a)" by (cases sa)
  define s where "s = (if drv = ''postgres'' then postgresPlaceholders s0 else s0)"
  define d1 where "d1 = called [TxQuery s a] d"
  show ?case
  proof (cases "tx_query b s a tx")
    case (Inl err)
    with Cons.prems sa have "d' = d1"
      by (simp add: Let_def s_def d1_def)
    then show ?thesis
      by (intro exI [of _ "[TxQuery s a]"]) (simp add: d1_def called_def)
  next
    case (Inr r)
    obtain tx1 cur where r: "r = (tx1, cur)" by (cases r)
    obtain rr cs where rows: "mq_rows (Columns cur) (pending cur) [] (calls d1) = (rr, cs)"
      by (cases "mq_rows (Columns cur) (pending cur) [] (calls d1)")
    from mq_rows_calls [OF rows] obtain new1 where new1: "cs = calls d1 @ new1"
      "set new1 \<subseteq> {RowsNext, RowsScan}" by blast
    have base: "calls (d1\<lparr>calls := cs\<rparr>) = calls d @ (TxQuery s a # new1)"
      "stored (d1\<lparr>calls := cs\<rparr>) = stored d"
      using new1 by (simp_all add: d1_def called_def)
    have ok: "TxRollback \<notin> set (TxQuery s a # new1)" "TxCommit \<notin> set (TxQuery s a # new1)"
      using new1(2) by auto
    show ?thesis
    proof (cases "\<exists>rowset. rr = Inr rowset \<and> Err cur = None")
      case False
      with Cons.prems sa Inr r rows have "d' = d1\<lparr>calls := cs\<rparr>"
        by (auto simp: Let_def s_def [symmetric] d1_def [symmetric] split: sum.splits option.splits)
      with base ok show ?thesis by blast
    next
      case True
      then obtain rowset where "rr = Inr rowset" "Err cur = None" by blast
      with Cons.prems sa Inr r rows
      have "mq_stmts b drv stmts tx1 (d1\<lparr>calls := cs\<rparr>) (ret @ [rowset]) (opened + 1) =
              (res, tx', d', opened')"
        by (simp add: Let_def s_def [symmetric] d1_def [symmetric])
      from Cons.IH [OF this] obtain new2 where "calls d' = calls (d1\<lparr>calls := cs\<rparr>) @ new2"
        "TxRollback \<notin> set new2" "TxCommit \<notin> set new2" "stored d' = stored (d1\<lparr>calls := cs\<rparr>)"
        by blast
      with base ok show ?thesis
        by (intro exI [of _ "(TxQuery s a # new1) @ new2"]) auto
    qed
  qed
qed

text \<open>
  Whatever happens to the statements, once \<open>Begin\<close> has succeeded \<open>MultiQuery\<close> ends
  with a commit and never calls \<open>Rollback\<close>, and the error of the commit is not what it
  returns.
\<close>

lemma MultiQuery_always_commits:
  assumes "begin_tx b None (stored d) = None"
  shows "\<exists>new. calls (snd (MultiQuery b c d sql args)) = calls d @ new @ [TxCommit] \<and>
               TxRollback \<notin> set new"
proof -
  define args' where "args' = args @ replicate (length sql - length args) []"
  obtain res tx d1 opened where
    m: "mq_stmts b (Driver c) (zip sql args') (stored d) (called [TxBegin None] d) [] 0 =
          (res, tx, d1, opened)"
    by (metis prod_cases4)
  from mq_stmts_calls [OF m] obtain new where new: "calls d1 = calls (called [TxBegin None] d) @ new"
    "TxRollback \<notin> set new" by blast
  have "calls (snd (MultiQuery b c d sql args)) =
          calls d @ (TxBegin None # new @ replicate opened RowsClose) @ [TxCommit]"
    using assms m new(1)
    by (simp add: MultiQuery_def Let_def args'_def [symmetric] deferred_end_def called_def
        split: option.splits)
  moreover have "TxRollback \<notin> set (TxBegin None # new @ replicate opened RowsClose)"
    using new(2) by auto
  ultimately show ?thesis by blast
qed

text \<open>
  C2. The specification says: when row \<open>i\<close> (counted from 1) is the first to fail,
  the error of \<open>Upsert\<close> names row \<open>i\<close> and no row's effect persists. Here the second
  row is refused: the error names row 1 (the loop index, counted from 0), the transaction
  is committed and the first row is stored.
\<close>

theorem Upsert_commits_and_counts_from_zero:
  "Upsert (example_backend 1 no_rows None) (example_config ''postgres'') empty_db
     ''insert into t values (?)'' [[VInt64 1], [VInt64 2, VInt64 3]] =
   (Some ''upsert on row 1 failed: sql: expected 1 arguments, got 2'',
    \<lparr>stored = [(''insert into t values ($1)'', [VInt64 1])],
     calls = [TxBegin None, TxPrepare ''insert into t values ($1)'',
              StmtExec ''insert into t values ($1)'' [VInt64 1],
              StmtExec ''insert into t values ($1)'' [VInt64 2, VInt64 3],
              StmtClose, TxCommit]\<rparr>)"
  by (simp add: Upsert_def run_defs)

lemma upsert_rows_first_failure:
  "exec_all b sql pre tx = Some tx1 \<Longrightarrow> stmt_exec b sql a tx1 = Inl e \<Longrightarrow>
   \<exists>cs'. upsert_rows b sql (pre @ a # post) i tx cs =
     (Some (''upsert on row '' @ show_nat (i + length pre) @ '' failed: '' @ e), tx1, cs')"
proof (induction pre arbitrary: i tx cs)
  case Nil
  then show ?case by simp
next
  case (Cons p pre)
  from Cons.prems obtain tx' where p: "stmt_exec b sql p tx = Inr tx'"
    and rest: "exec_all b sql pre tx' = Some tx1"
    by (auto split: sum.splits)
  from Cons.IH [OF rest Cons.prems(2), of "i + 1" "cs @ [StmtExec sql p]"] p
  show ?case by auto
qed

lemma upsert_rows_all:
  "exec_all b sql array tx = Some tx1 \<Longrightarrow>
   \<exists>cs'. upsert_rows b sql array i tx cs = (None, tx1, cs')"
proof (induction array arbitrary: i tx cs)
  case Nil
  then show ?case by simp
next
  case (Cons p array)
  from Cons.prems obtain tx' where p: "stmt_exec b sql p tx = Inr tx'"
    and rest: "exec_all b sql array tx' = Some tx1"
    by (auto split: sum.splits)
  from Cons.IH [OF rest, of "i + 1" "cs @ [StmtExec sql p]"] p
  show ?case by auto
qed

text \<open>
  For every backend: when the rows before one succeed and that row fails, \<open>Upsert\<close>
  names the number of rows before it (the row's index from 0), and commits what those
  rows did.
\<close>

lemma Upsert_first_failure:
  assumes sql: "sql = (if Driver c = ''postgres'' then postgresPlaceholders sql0 else sql0)"
    and "begin_tx b None (stored d) = None" and "tx_prepare b sql (stored d) = None"
    and pre: "exec_all b sql pre (stored d) = Some tx1" and fail: "stmt_exec b sql a tx1 = Inl e"
    and "tx_commit b tx1 = None"
  shows "fst (Upsert b c d sql0 (pre @ a # post)) =
           Some (''upsert on row '' @ show_nat (length pre) @ '' failed: '' @ e) \<and>
         stored (snd (Upsert b c d sql0 (pre @ a # post))) = tx1 \<and>
         last (calls (snd (Upsert b c d sql0 (pre @ a # post)))) = TxCommit"
proof -
  from upsert_rows_first_failure [OF pre fail, of post 0
      "calls (called [TxBegin None, TxPrepare sql] d)"]
  obtain cs' where "upsert_rows b sql (pre @ a # post) 0 (stored d)
      (calls (called [TxBegin None, TxPrepare sql] d)) =
     (Some (''upsert on row '' @ show_nat (length pre) @ '' failed: '' @ e), tx1, cs')"
    by auto
  with assms(2,3,6) show ?thesis
    by (simp add: Upsert_def Let_def sql [symmetric] deferred_end_def called_def)
qed

text \<open>For every backend: when all rows succeed and the commit fails, \<open>Upsert\<close> returns nil.\<close>

lemma Upsert_commit_error:
  assumes sql: "sql = (if Driver c = ''postgres'' then postgresPlaceholders sql0 else sql0)"
    and "begin_tx b None (stored d) = None" and "tx_prepare b sql (stored d) = None"
    and rows: "exec_all b sql array (stored d) = Some tx1"
    and "tx_commit b tx1 = Some e"
  shows "fst (Upsert b c d sql0 array) = None \<and>
         last (calls (snd (Upsert b c d sql0 array))) = TxCommit"
proof -
  from upsert_rows_all [OF rows, of 0 "calls (called [TxBegin None, TxPrepare sql] d)"]
  obtain cs' where "upsert_rows b sql array 0 (stored d)
      (calls (called [TxBegin None, TxPrepare sql] d)) = (None, tx1, cs')"
    by auto
  with assms(2,3,5) show ?thesis
    by (simp add: Upsert_def Let_def sql [symmetric] deferred_end_def called_def)
qed

text \<open>
  C3. The specification says: a field flagged \<open>agg\<close> is scanned into a scratch slot,
  then populated from the value captured there, cut to its first 10 bytes as for
  \<open>date\<close>. The code scans into the scratch slot and never reads it again. Here both
  columns hold the same timestamp: the \<open>date\<close> field gets its first 10 bytes, the
  \<open>agg\<close> field stays empty.
\<close>

theorem agg_field_stays_empty:
  "unmarshal (example_backend 0 stat_rows None) (example_config ''postgres'') empty_db None
     (Some (Ptr (Slice (Ptr (Struct Stat))))) (Some []) ''select day, total from stats'' [] =
   (Returns None, Some [[FString ''2024-01-02'', FString []]],
    \<lparr>stored = [(''select day, total from stats'', [])],
     calls = [TxBegin None, TxQuery ''select day, total from stats'' [], RowsNext, RowsScan,
              RowsNext, RowsClose, TxCommit]\<rparr>)"
  by (simp add: unmarshal_defs run_defs Stat_def stat_rows_def)

text \<open>
  For every backend and every row: in a record that is appended, a \<open>string\<close> field
  flagged \<open>agg\<close> is empty, whatever its column held.
\<close>

lemma agg_field_row:
  assumes wf: "unique_names fs" and tags: "collect_tags fs [] = Inr populate"
    and scan: "scan_record b populate fs cols r = Inr scanned"
    and coerce: "coerce_record populate fs cols scanned = Returns final"
    and j: "j < length fs" and str: "ftyp (fs ! j) = TString"
    and tag: "field_tag (fs ! j) = Some t" and agg: "''agg'' \<in> set (Options t)"
  shows "final ! j = FString []"
proof -
  let ?bs = "row_bindings populate fs cols"
  from coerce obtain mid where mid: "truncate_fields fs (dateOptions ?bs) scanned = Returns mid"
    and fin: "truncate_fields fs (aggOptions ?bs) mid = Returns final"
    by (auto simp: coerce_record_def split: outcome.splits)
  have none: "\<forall>ty. ToField j ty \<notin> set (columnPointers ?bs)"
  proof (intro allI notI)
    fix ty
    assume "ToField j ty \<in> set (columnPointers ?bs)"
    then obtain col where col: "step_dest populate fs col = ToField j ty"
      by (auto simp: row_bindings_lists)
    from step_dest_ToField [OF wf tags col] tag
    have "map_of populate col = Some t" "find_field fs (Field t) 0 = Some (j, fs ! j)" by auto
    with agg have "step_dest populate fs col = ToScratch"
      by (auto simp: step_dest_def)
    with col show False by simp
  qed
  from scan_record_untouched [OF scan none j] str have s: "scanned ! j = FString []" by simp
  have len: "j < length scanned" using scan_record_length [OF scan] j by simp
  have len': "j < length mid" using truncate_fields_length [OF mid] len by simp
  from truncate_fields_string [OF mid len str] s have "mid ! j = FString []"
    by (simp add: first10_def)
  with truncate_fields_string [OF fin len' str] show ?thesis
    by (simp add: first10_def)
qed

text \<open>
  Each operation on a backend whose commit fails, the unit of work succeeding: the
  operation commits and returns no error.
\<close>

lemma commit_error_MultiQuery:
  "MultiQuery (example_backend 1 no_rows (Some ''commit failed'')) (example_config ''postgres'')
     empty_db [''insert into t values (?)''] [[VInt64 1]] =
   (([[]], None),
    \<lparr>stored = [],
     calls = [TxBegin None, TxQuery ''insert into t values ($1)'' [VInt64 1], RowsNext, RowsClose,
              TxCommit]\<rparr>)"
  by (simp add: MultiQuery_def run_defs)

lemma commit_error_Query:
  "Query (example_backend 1 no_rows (Some ''commit failed'')) (example_config ''postgres'')
     empty_db ''insert into t values (?)'' [VInt64 1] =
   (Returns ([], None),
    \<lparr>stored = [],
     calls = [TxBegin None, TxQuery ''insert into t values ($1)'' [VInt64 1], RowsNext, RowsClose,
              TxCommit]\<rparr>)"
  unfolding Query_def commit_error_MultiQuery by simp

lemma commit_error_QueryString:
  "QueryString (example_backend 1 no_rows (Some ''commit failed'')) (example_config ''postgres'')
     empty_db ''insert into t values (?)'' [VInt64 1] =
   (Returns ([], None),
    \<lparr>stored = [],
     calls = [TxBegin None, TxQuery ''insert into t values ($1)'' [VInt64 1], RowsNext, RowsClose,
              TxCommit]\<rparr>)"
  unfolding QueryString_def commit_error_MultiQuery by simp

lemma commit_error_QueryInterface:
  "QueryInterface (example_backend 1 no_rows (Some ''commit failed'')) (example_config ''postgres'')
     empty_db ''insert into t values (?)'' [VInt64 1] =
   (Returns ([], None),
    \<lparr>stored = [],
     calls = [TxBegin None, TxQuery ''insert into t values ($1)'' [VInt64 1], RowsNext, RowsClose,
              TxCommit]\<rparr>)"
  unfolding QueryInterface_def commit_error_MultiQuery by simp

lemma commit_error_Upsert:
  "Upsert (example_backend 1 no_rows (Some ''commit failed'')) (example_config ''postgres'')
     empty_db ''insert into t values (?)'' [[VInt64 1]] =
   (None,
    \<lparr>stored = [],
     calls = [TxBegin None, TxPrepare ''insert into t values ($1)'',
              StmtExec ''insert into t values ($1)'' [VInt64 1], StmtClose, TxCommit]\<rparr>)"
  by (simp add: Upsert_def run_defs)

lemma commit_error_Transaction:
  "Transaction (example_backend 1 no_rows (Some ''commit failed'')) (example_config ''postgres'')
     empty_db [''insert into t values (?)''] [[[VInt64 1]]] =
   (None,
    \<lparr>stored = [],
     calls = [TxBegin None, TxPrepare ''insert into t values ($1)'',
              StmtExec ''insert into t values ($1)'' [VInt64 1], StmtClose, TxCommit]\<rparr>)"
  by (simp add: Transaction_def run_defs)

lemma commit_error_unmarshal:
  "unmarshal (example_backend 0 stat_rows (Some ''commit failed'')) (example_config ''postgres'')
     empty_db None (Some (Ptr (Slice (Ptr (Struct Stat))))) (Some []) ''select day, total from stats'' [] =
   (Returns None, Some [[FString ''2024-01-02'', FString []]],
    \<lparr>stored = [],
     calls = [TxBegin None, TxQuery ''select day, total from stats'' [], RowsNext, RowsScan,
              RowsNext, RowsClose, TxCommit]\<rparr>)"
  by (simp add: unmarshal_defs run_defs Stat_def stat_rows_def)

text \<open>
  C4. The specification says: when the unit of work succeeds the transaction is committed
  and an error of the commit is returned to the caller. The code commits, and drops the
  error: the closure assigns it to a local variable after the \<open>return\<close> statement has
  fixed the unnamed result. Here the commit fails after the unit of work of
  \<open>MultiQuery\<close>, \<open>Query\<close>, \<open>QueryString\<close>, \<open>QueryInterface\<close>, \<open>Upsert\<close>,
  \<open>Transaction\<close> and \<open>unmarshal\<close> has succeeded, and each returns no error.
\<close>

theorem commit_error_is_dropped:
  "tx_commit (example_backend 1 no_rows (Some ''commit failed''))
     [(''insert into t values ($1)'', [VInt64 1])] = Some ''commit failed'' \<and>
   tx_commit (example_backend 0 stat_rows (Some ''commit failed''))
     [(''select day, total from stats'', [])] = Some ''commit failed'' \<and>
   MultiQuery (example_backend 1 no_rows (Some ''commit failed'')) (example_config ''postgres'')
     empty_db [''insert into t values (?)''] [[VInt64 1]] =
   (([[]], None),
    \<lparr>stored = [],
     calls = [TxBegin None, TxQuery ''insert into t values ($1)'' [VInt64 1], RowsNext, RowsClose,
              TxCommit]\<rparr>) \<and>
   Query (example_backend 1 no_rows (Some ''commit failed'')) (example_config ''postgres'')
     empty_db ''insert into t values (?)'' [VInt64 1] =
   (Returns ([], None),
    \<lparr>stored = [],
     calls = [TxBegin None, TxQuery ''insert into t values ($1)'' [VInt64 1], RowsNext, RowsClose,
              TxCommit]\<rparr>) \<and>
   QueryString (example_backend 1 no_rows (Some ''commit failed'')) (example_config ''postgres'')
     empty_db ''insert into t values (?)'' [VInt64 1] =
   (Returns ([], None),
    \<lparr>stored = [],
     calls = [TxBegin None, TxQuery ''insert into t values ($1)'' [VInt64 1], RowsNext, RowsClose,
              TxCommit]\<rparr>) \<and>
   QueryInterface (example_backend 1 no_rows (Some ''commit failed'')) (example_config ''postgres'')
     empty_db ''insert into t values (?)'' [VInt64 1] =
   (Returns ([], None),
    \<lparr>stored = [],
     calls = [TxBegin None, TxQuery ''insert into t values ($1)'' [VInt64 1], RowsNext, RowsClose,
              TxCommit]\<rparr>) \<and>
   Upsert (example_backend 1 no_rows (Some ''commit failed'')) (example_config ''postgres'')
     empty_db ''insert into t values (?)'' [[VInt64 1]] =
   (None,
    \<lparr>stored = [],
     calls = [TxBegin None, TxPrepare ''insert into t values ($1)'',
              StmtExec ''insert into t values ($1)'' [VInt64 1], StmtClose, TxCommit]\<rparr>) \<and>
   Transaction (example_backend 1 no_rows (Some ''commit failed'')) (example_config ''postgres'')
     empty_db [''insert into t values (?)''] [[[VInt64 1]]] =
   (None,
    \<lparr>stored = [],
     calls = [TxBegin None, TxPrepare ''insert into t values ($1)'',
              StmtExec ''insert into t values ($1)'' [VInt64 1], StmtClose, TxCommit]\<rparr>) \<and>
   unmarshal (example_backend 0 stat_rows (Some ''commit failed'')) (example_config ''postgres'')
     empty_db None (Some (Ptr (Slice (Ptr (Struct Stat))))) (Some []) ''select day, total from stats'' [] =
   (Returns None, Some [[FString ''2024-01-02'', FString []]],
    \<lparr>stored = [],
     calls = [TxBegin None, TxQuery ''select day, total from stats'' [], RowsNext, RowsScan,
              RowsNext, RowsClose, TxCommit]\<rparr>)"
  by (intro conjI commit_error_MultiQuery commit_error_Query commit_error_QueryString
      commit_error_QueryInterface commit_error_Upsert commit_error_Transaction
      commit_error_unmarshal) (simp_all add: example_backend_def)

lemma mq_stmts_commit_free:
  "mq_stmts (b\<lparr>tx_commit := k\<rparr>) drv stmts tx d ret opened = mq_stmts b drv stmts tx d ret opened"
proof (induction stmts arbitrary: drv tx d ret opened)
  case Nil
  show ?case by simp
next
  case (Cons sa stmts)
  obtain s0 a where sa: "sa = (s0, a)" by (cases sa)
  show ?case
    unfolding sa
    by (simp add: Let_def Cons.IH split: sum.splits prod.splits option.splits)
qed

lemma upsert_rows_commit_free:
  "upsert_rows (b\<lparr>tx_commit := k\<rparr>) sql array i tx cs = upsert_rows b sql array i tx cs"
  by (induction array arbitrary: i tx cs) (simp_all split: sum.splits)

lemma tr_prepare_commit_free:
  "tr_prepare (b\<lparr>tx_commit := k\<rparr>) drv sqls tx stmtlist cs = tr_prepare b drv sqls tx stmtlist cs"
  by (induction sqls arbitrary: drv stmtlist cs) (simp_all add: Let_def split: option.splits)

lemma tr_rows_commit_free:
  "tr_rows (b\<lparr>tx_commit := k\<rparr>) stmt setno rows rowno tx cs = tr_rows b stmt setno rows rowno tx cs"
  by (induction rows arbitrary: rowno tx cs) (simp_all split: sum.splits)

lemma tr_sets_commit_free:
  "tr_sets (b\<lparr>tx_commit := k\<rparr>) sets setno tx cs = tr_sets b sets setno tx cs"
proof (induction sets arbitrary: setno tx cs)
  case Nil
  show ?case by simp
next
  case (Cons sr sets)
  obtain stmt rows where sr: "sr = (stmt, rows)" by (cases sr)
  show ?case
    unfolding sr
    by (simp add: tr_rows_commit_free Cons.IH split: prod.splits option.splits)
qed

lemma scan_dest_commit_free:
  "scan_dest (b\<lparr>tx_commit := k\<rparr>) i c ty v = scan_dest b i c ty v"
  by (cases ty) simp_all

lemma scan_dests_commit_free:
  "scan_dests (b\<lparr>tx_commit := k\<rparr>) i cols ds vs x = scan_dests b i cols ds vs x"
proof (induction ds arbitrary: i cols vs x)
  case Nil
  show ?case by (cases cols; cases vs) simp_all
next
  case (Cons dst ds)
  show ?case
  proof (cases cols)
    case Nil
    then show ?thesis by simp
  next
    case c: (Cons c cols')
    show ?thesis
    proof (cases vs)
      case Nil
      with c show ?thesis by (cases dst) simp_all
    next
      case v: (Cons v vs')
      with c show ?thesis
        by (cases dst) (simp_all add: scan_dest_commit_free Cons.IH split: sum.splits)
    qed
  qed
qed

lemma um_rows_commit_free:
  "um_rows (b\<lparr>tx_commit := k\<rparr>) populate fs cols rs ts cs = um_rows b populate fs cols rs ts cs"
proof (induction rs arbitrary: ts cs)
  case Nil
  show ?case by simp
next
  case (Cons r rs)
  have "scan_record (b\<lparr>tx_commit := k\<rparr>) populate fs cols r = scan_record b populate fs cols r"
    by (simp add: scan_record_def rows_Scan_def scan_dests_commit_free split: sum.splits)
  then show ?case
    by (simp add: Cons.IH split: sum.splits outcome.splits)
qed

text \<open>
  For every backend and every input, what the operations return does not depend on what
  \<open>Commit\<close> answers.
\<close>

lemma commit_outcome_ignored:
  "fst (MultiQuery (b\<lparr>tx_commit := k\<rparr>) c d sqls args) = fst (MultiQuery b c d sqls args)"
  "fst (Upsert (b\<lparr>tx_commit := k\<rparr>) c d sql array) = fst (Upsert b c d sql array)"
  "fst (Transaction (b\<lparr>tx_commit := k\<rparr>) c d sqls sets) = fst (Transaction b c d sqls sets)"
  "fst (unmarshal (b\<lparr>tx_commit := k\<rparr>) c d txOpts v ts SQL vals) = fst (unmarshal b c d txOpts v ts SQL vals)"
proof -
  show "fst (MultiQuery (b\<lparr>tx_commit := k\<rparr>) c d sqls args) = fst (MultiQuery b c d sqls args)"
    by (simp add: MultiQuery_def mq_stmts_commit_free Let_def
        split: option.splits prod.splits sum.splits)
  show "fst (Upsert (b\<lparr>tx_commit := k\<rparr>) c d sql array) = fst (Upsert b c d sql array)"
    by (simp add: Upsert_def upsert_rows_commit_free Let_def
        split: option.splits prod.splits sum.splits)
  show "fst (Transaction (b\<lparr>tx_commit := k\<rparr>) c d sqls sets) = fst (Transaction b c d sqls sets)"
    by (simp add: Transaction_def tr_prepare_commit_free tr_sets_commit_free Let_def
        split: option.splits prod.splits sum.splits)
  show "fst (unmarshal (b\<lparr>tx_commit := k\<rparr>) c d txOpts v ts SQL vals) = fst (unmarshal b c d txOpts v ts SQL vals)"
    by (simp add: unmarshal_def um_rows_commit_free Let_def
        split: option.splits prod.splits sum.splits gotype.splits outcome.splits)
qed

end
